theory Spec2Isabelle
  imports Main "HOL-Library.Sublist" "HOL-Library.AList"
begin

section \<open>Overview\<close>

text \<open>
  The repository holds two scripts. The importer fetches the list pages of one member of a
  site of mixes, collects the ids of the mixes the pages name, fetches the page of each
  mix, reads a record from it with regular expressions, and writes the record as a JSON
  file named by a slug of its title. The normalizer reads the JSON files back, removes the
  token \<open>&nbsp;\<close> from the title and from the tracks, trims them, and writes the files
  again.

  The theory is a shallow embedding of both. A function of the scripts is a function of
  the same name here; a regular expression is a term, run by a backtracking matcher; what
  a function throws is a value of a sum type; the network and the file system are
  parameters of a run; and the loops over the pages and over the ids are recursive
  functions on the state of the run. The console output, the pause between two requests,
  the creation of the output directory and the function \<open>getTotalPages\<close>, which
  \<open>importMixes\<close> does not call, are left out. Of \<open>JSON.parse\<close> and \<open>JSON.stringify\<close> the
  theory keeps the tree of the JSON text: the members of an object as they are written, a
  text as the string it denotes, a number as it is written; the reading and the printing
  of a number are parameters.
\<close>

section \<open>Strings\<close>

text \<open>
  A JavaScript string is a sequence of UTF-16 code units. The model uses \<^typ>\<open>string\<close>,
  whose characters are the code units below 256 (ASCII and Latin-1): on these strings every
  function below computes what the JavaScript built-in computes. Code units from 256 on
  (the en dash and em dash that one pattern of the importer names, for example) are
  outside the model.
\<close>

definition charCode :: "char \<Rightarrow> int" where
  "charCode c = of_char c"

text \<open>White space of \<open>\s\<close> and of \<open>trim\<close>: tab, line feed, vertical tab, form feed,
  carriage return, space and the no-break space.\<close>

definition isSpace :: "char \<Rightarrow> bool" where
  "isSpace c = (charCode c \<in> {9, 10, 11, 12, 13, 32, 160})"

definition isDigit :: "char \<Rightarrow> bool" where
  "isDigit c = (48 \<le> charCode c \<and> charCode c \<le> 57)"

definition lowerChar :: "char \<Rightarrow> char" where
  "lowerChar c = (let n = charCode c in
     if (65 \<le> n \<and> n \<le> 90) \<or> (192 \<le> n \<and> n \<le> 222 \<and> n \<noteq> 215)
     then char_of (n + 32) else c)"

definition upperChar :: "char \<Rightarrow> char" where
  "upperChar c = (let n = charCode c in
     if (97 \<le> n \<and> n \<le> 122) \<or> (224 \<le> n \<and> n \<le> 254 \<and> n \<noteq> 247)
     then char_of (n - 32) else c)"

definition toLowerCase :: "string \<Rightarrow> string" where
  "toLowerCase s = map lowerChar s"

definition trim :: "string \<Rightarrow> string" where
  "trim s = rev (dropWhile isSpace (rev (dropWhile isSpace s)))"

text \<open>\<open>s.substring(a, b)\<close> and \<open>s.substring(a)\<close>: a negative index counts as 0, and the
  two indices are swapped when the first is the larger.\<close>

definition substring :: "string \<Rightarrow> int \<Rightarrow> int \<Rightarrow> string" where
  "substring s a b =
     (let a' = nat (max 0 a); b' = nat (max 0 b); lo = min a' b'; hi = max a' b'
      in take (hi - lo) (drop lo s))"

definition substringFrom :: "string \<Rightarrow> int \<Rightarrow> string" where
  "substringFrom s a = drop (nat (max 0 a)) s"

text \<open>\<open>s.padStart(2, '0')\<close>.\<close>

definition padStart2 :: "string \<Rightarrow> string" where
  "padStart2 s = (if 2 \<le> length s then s else replicate (2 - length s) (CHR ''0'') @ s)"

text \<open>\<open>s.split(c)\<close> for a one-character separator: never the empty array.\<close>

fun splitOn :: "char \<Rightarrow> string \<Rightarrow> string list" where
  "splitOn c [] = [[]]"
| "splitOn c (x # xs) =
     (if x = c then [] # splitOn c xs
      else (case splitOn c xs of p # ps \<Rightarrow> (x # p) # ps | [] \<Rightarrow> [[x]]))"

text \<open>Decimal digits of a number, as template literals print it.\<close>

fun showNat :: "nat \<Rightarrow> string" where
  "showNat n =
     (if n < 10 then [char_of (48 + n)]
      else showNat (n div 10) @ [char_of (48 + n mod 10)])"

declare showNat.simps [simp del]

section \<open>Regular expressions\<close>

text \<open>
  The patterns of the scripts are terms of \<open>re\<close>; \<open>mt\<close> is the backtracking matcher of
  ECMAScript. A state is the position in the subject, the text that is left and the
  groups captured so far. \<open>mt ic r st\<close> lists, in the order in which backtracking tries
  them, the states in which a match of \<open>r\<close> that starts in \<open>st\<close> can end: the first state of
  the list is the match JavaScript reports. \<open>ic\<close> is the flag \<open>i\<close>. A greedy \<open>Star\<close> tries
  one more round before it tries to stop, a lazy one the other way round, and a round that
  consumes nothing is dropped, as the standard asks.
\<close>

datatype atom = Ch char | Rng char char | WS | NWS | Dig

text \<open>With the flag \<open>i\<close> two code units match when their canonical (upper case) forms
  are equal; no code unit from 128 on has an ASCII canonical form.\<close>

fun atomMatch :: "bool \<Rightarrow> atom \<Rightarrow> char \<Rightarrow> bool" where
  "atomMatch ic (Ch c) x = (if ic then upperChar c = upperChar x else c = x)"
| "atomMatch ic (Rng lo hi) x =
     (let inr = (\<lambda>y. charCode lo \<le> charCode y \<and> charCode y \<le> charCode hi)
      in if ic then inr x \<or> inr (lowerChar x) \<or> inr (upperChar x) else inr x)"
| "atomMatch ic WS x = isSpace x"
| "atomMatch ic NWS x = (\<not> isSpace x)"
| "atomMatch ic Dig x = isDigit x"

datatype re =
    Cls bool "atom list"
  | Bol
  | Eol
  | Eps
  | Seq re re
  | Alt re re
  | Star bool re
  | Grp nat re

type_synonym captures = "(nat \<times> string) list"

type_synonym mstate = "nat \<times> string \<times> captures"

fun mt :: "bool \<Rightarrow> re \<Rightarrow> mstate \<Rightarrow> mstate list" where
  "mt ic (Cls neg as) (n, s, cs) =
     (case s of [] \<Rightarrow> []
      | x # xs \<Rightarrow> if list_ex (\<lambda>a. atomMatch ic a x) as \<noteq> neg then [(Suc n, xs, cs)] else [])"
| "mt ic Bol (n, s, cs) = (if n = 0 then [(n, s, cs)] else [])"
| "mt ic Eol (n, s, cs) = (if s = [] then [(n, s, cs)] else [])"
| "mt ic Eps st = [st]"
| "mt ic (Seq r1 r2) st = concat (map (mt ic r2) (mt ic r1 st))"
| "mt ic (Alt r1 r2) st = mt ic r1 st @ mt ic r2 st"
| "mt ic (Star greedy r) (n, s, cs) =
     (let more = concat (map (\<lambda>st'. if length (fst (snd st')) < length s
                                       then mt ic (Star greedy r) st' else [])
                             (mt ic r (n, s, cs)))
      in if greedy then more @ [(n, s, cs)] else (n, s, cs) # more)"
| "mt ic (Grp k r) (n, s, cs) =
     map (\<lambda>(n', s', cs'). (n', s', cs' @ [(k, take (n' - n) s)])) (mt ic r (n, s, cs))"

text \<open>The building blocks of the patterns: a literal text, \<open>r+\<close>, \<open>r?\<close>, \<open>r{1,2}\<close>,
  \<open>r{4}\<close> and a sequence.\<close>

fun lits :: "string \<Rightarrow> re" where
  "lits [] = Eps"
| "lits (c # cs) = Seq (Cls False [Ch c]) (lits cs)"

fun seqs :: "re list \<Rightarrow> re" where
  "seqs [] = Eps"
| "seqs (r # rs) = Seq r (seqs rs)"

definition rplus :: "bool \<Rightarrow> re \<Rightarrow> re" where
  "rplus greedy r = Seq r (Star greedy r)"

definition ropt :: "re \<Rightarrow> re" where
  "ropt r = Alt r Eps"

definition rep12 :: "re \<Rightarrow> re" where
  "rep12 r = Seq r (ropt r)"

definition rep4 :: "re \<Rightarrow> re" where
  "rep4 r = Seq r (Seq r (Seq r r))"

definition ws :: re where
  "ws = Cls False [WS]"

definition digit :: re where
  "digit = Cls False [Dig]"

text \<open>\<open>[\s\S]\<close>, and the dot, which matches all but the line terminators.\<close>

definition anyChar :: re where
  "anyChar = Cls False [WS, NWS]"

definition dot :: re where
  "dot = Cls True [Ch (CHR 0x0A), Ch (CHR 0x0D)]"

text \<open>\<open>[^c]\<close>.\<close>

definition notChar :: "char \<Rightarrow> re" where
  "notChar c = Cls True [Ch c]"

text \<open>The first match at or after a position: where it starts, the text from there, and
  the state at its end.\<close>

fun rsearch :: "bool \<Rightarrow> re \<Rightarrow> nat \<Rightarrow> string \<Rightarrow> (nat \<times> string \<times> mstate) option" where
  "rsearch ic r n [] =
     (case mt ic r (n, [], []) of st # _ \<Rightarrow> Some (n, [], st) | [] \<Rightarrow> None)"
| "rsearch ic r n (x # xs) =
     (case mt ic r (n, x # xs, []) of
        st # _ \<Rightarrow> Some (n, x # xs, st)
      | [] \<Rightarrow> rsearch ic r (Suc n) xs)"

lemma rsearch_length:
  "rsearch ic r n s = Some (i, si, st) \<Longrightarrow> length si \<le> length s"
proof (induction s arbitrary: n)
  case Nil
  then show ?case by (auto split: list.splits)
next
  case (Cons x xs)
  show ?case
  proof (cases "mt ic r (n, x # xs, [])")
    case Nil
    with Cons.prems have "rsearch ic r (Suc n) xs = Some (i, si, st)" by simp
    from Cons.IH [OF this] show ?thesis by simp
  next
    case (Cons a list)
    with Cons.prems show ?thesis by simp
  qed
qed

text \<open>
  All matches from left to right, as a pattern with the flag \<open>g\<close> finds them: each with
  the text skipped before it, the matched text and its groups; and the text after the last
  match. After a match the scan goes on where the match ended; after an empty match it
  moves on by one code unit, as \<open>replace\<close> does. (No pattern of the scripts that is used
  with \<open>g\<close> matches the empty text, so the \<open>exec\<close> loops see the same matches.)
\<close>

function scan :: "bool \<Rightarrow> re \<Rightarrow> nat \<Rightarrow> string \<Rightarrow> (string \<times> string \<times> captures) list \<times> string" where
  "scan ic r n s =
     (case rsearch ic r n s of
        None \<Rightarrow> ([], s)
      | Some (i, si, (e, rest, cs)) \<Rightarrow>
          if length rest < length si
          then (case scan ic r e rest of
                  (ms, aft) \<Rightarrow> ((take (i - n) s, take (e - i) si, cs) # ms, aft))
          else (case si of
                  [] \<Rightarrow> ([(take (i - n) s, [], cs)], [])
                | x # xs \<Rightarrow>
                    (case scan ic r (Suc i) xs of
                       ([], aft) \<Rightarrow> ([(take (i - n) s, [], cs)], x # aft)
                     | ((pre, m) # ms, aft) \<Rightarrow>
                         ((take (i - n) s, [], cs) # (x # pre, m) # ms, aft))))"
  by pat_completeness auto

termination
proof (relation "measure (\<lambda>(ic, r, n, s). length s)")
  show "wf (measure (\<lambda>(ic, r, n, s). length s))" by simp
next
  fix ic r n s x2 i y si z e w rest cs
  assume "rsearch ic r n s = Some x2" "(i, y) = x2" "(si, z) = y" "(e, w) = z" "(rest, cs) = w"
    and lt: "length rest < length si"
  then have "rsearch ic r n s = Some (i, si, (e, rest, cs))" by simp
  from rsearch_length [OF this] lt
  show "((ic, r, e, rest), (ic, r, n, s)) \<in> measure (\<lambda>(ic, r, n, s). length s)" by simp
next
  fix ic r n s x2 i y si z e w rest cs x xs
  assume "rsearch ic r n s = Some x2" "(i, y) = x2" "(si, z) = y" "(e, w) = z" "(rest, cs) = w"
    and si: "si = x # xs"
  then have "rsearch ic r n s = Some (i, si, (e, rest, cs))" by simp
  from rsearch_length [OF this] si
  show "((ic, r, Suc i, xs), (ic, r, n, s)) \<in> measure (\<lambda>(ic, r, n, s). length s)" by simp
qed

declare scan.simps [simp del]

text \<open>The JavaScript calls on a pattern: \<open>s.match(r)\<close> and \<open>r.test(s)\<close> without \<open>g\<close>,
  \<open>s.search(r)\<close>, the \<open>exec\<close> loop, and \<open>s.replace(r, text)\<close> with and without \<open>g\<close>.\<close>

definition rmatch :: "bool \<Rightarrow> re \<Rightarrow> string \<Rightarrow> (nat \<times> captures) option" where
  "rmatch ic r s =
     (case rsearch ic r 0 s of None \<Rightarrow> None | Some (i, si, (e, rest, cs)) \<Rightarrow> Some (i, cs))"

definition test :: "bool \<Rightarrow> re \<Rightarrow> string \<Rightarrow> bool" where
  "test ic r s = (rmatch ic r s \<noteq> None)"

definition search :: "bool \<Rightarrow> re \<Rightarrow> string \<Rightarrow> int" where
  "search ic r s = (case rmatch ic r s of None \<Rightarrow> - 1 | Some (i, cs) \<Rightarrow> int i)"

definition execAll :: "bool \<Rightarrow> re \<Rightarrow> string \<Rightarrow> captures list" where
  "execAll ic r s = map (\<lambda>(pre, m, cs). cs) (fst (scan ic r 0 s))"

definition replaceAll :: "bool \<Rightarrow> re \<Rightarrow> string \<Rightarrow> string \<Rightarrow> string" where
  "replaceAll ic r rep s =
     (case scan ic r 0 s of (ms, aft) \<Rightarrow> concat (map (\<lambda>(pre, m, cs). pre @ rep) ms) @ aft)"

definition replaceFirst :: "bool \<Rightarrow> re \<Rightarrow> string \<Rightarrow> string \<Rightarrow> string" where
  "replaceFirst ic r rep s =
     (case rsearch ic r 0 s of
        None \<Rightarrow> s
      | Some (i, si, (e, rest, cs)) \<Rightarrow> take i s @ rep @ rest)"

text \<open>\<open>match[k]\<close>: the text group \<open>k\<close> captured last. In every pattern below each group
  lies on every path through the pattern, so \<open>match[k]\<close> is never \<open>undefined\<close>.\<close>

definition grp :: "nat \<Rightarrow> captures \<Rightarrow> string" where
  "grp k cs = (case map_of (rev cs) k of Some w \<Rightarrow> w | None \<Rightarrow> [])"

text \<open>\<open>a || b\<close> on two match results.\<close>

definition orElse :: "'a option \<Rightarrow> 'a option \<Rightarrow> 'a option" where
  "orElse a b = (case a of Some x \<Rightarrow> Some x | None \<Rightarrow> b)"

section \<open>The importer: small helpers\<close>

definition MEMBER_ID :: string where
  "MEMBER_ID = ''3942''"

definition BASE_URL :: string where
  "BASE_URL = ''https://www.artofthemix.org''"

text \<open>\<open>slugify\<close>: the patterns are \<open>/['']/g\<close>, \<open>/[^a-z0-9]+/g\<close> and \<open>/^-+|-+$/g\<close>.\<close>

definition slugify :: "string \<Rightarrow> string" where
  "slugify title =
     substring
       (replaceAll False
          (Alt (Seq Bol (rplus True (Cls False [Ch (CHR ''-'')])))
               (Seq (rplus True (Cls False [Ch (CHR ''-'')])) Eol)) ''''
          (replaceAll False
             (rplus True (Cls True [Rng (CHR ''a'') (CHR ''z''), Rng (CHR ''0'') (CHR ''9'')])) ''-''
             (replaceAll False (Cls False [Ch (CHR 0x27), Ch (CHR 0x27)]) ''''
                (toLowerCase title))))
       0 80"

text \<open>What the scripts throw: an \<open>Error\<close> with its message (from \<open>fetchPage\<close>, or from
  the network or the file system), the \<open>TypeError\<close> of a call on \<open>undefined\<close>, or the
  \<open>SyntaxError\<close> of \<open>JSON.parse\<close>.\<close>

datatype error = Error string | TypeError | SyntaxError

text \<open>\<open>parseDate\<close>: with one part only, \<open>day\<close> is \<open>undefined\<close> and \<open>day.padStart\<close>
  throws; with two parts \<open>year\<close> is printed as \<open>undefined\<close>.\<close>

definition parseDate :: "string \<Rightarrow> error + string" where
  "parseDate dateStr =
     (case splitOn (CHR ''/'') dateStr of
        month # day # year # _ \<Rightarrow> Inr (year @ ''-'' @ padStart2 month @ ''-'' @ padStart2 day)
      | [month, day] \<Rightarrow> Inr (''undefined'' @ ''-'' @ padStart2 month @ ''-'' @ padStart2 day)
      | _ \<Rightarrow> Inl TypeError)"

text \<open>
  The network: what the site answers to the \<open>t\<close>-th request of the run, for the URL asked.
  \<open>NetworkError\<close> is a request, or the reading of its body, that fails.
\<close>

datatype response = NetworkError string | Response nat string

definition fetchPage :: "(nat \<Rightarrow> string \<Rightarrow> response) \<Rightarrow> nat \<Rightarrow> string \<Rightarrow> error + string" where
  "fetchPage network t url =
     (case network t url of
        NetworkError msg \<Rightarrow> Inl (Error msg)
      | Response status body \<Rightarrow>
          if \<not> (200 \<le> status \<and> status \<le> 299)
          then Inl (Error (''Failed to fetch '' @ url @ '': '' @ showNat status))
          else Inr body)"

text \<open>\<open>extractMixIds\<close>: the pattern is \<open>/\/mix\/(\d+)/g\<close>; \<open>pushNew\<close> is the loop over
  its matches, with the array built so far.\<close>

definition mixIdRe :: re where
  "mixIdRe = Seq (lits ''/mix/'') (Grp 1 (rplus True digit))"

fun pushNew :: "string list \<Rightarrow> string list \<Rightarrow> string list" where
  "pushNew mixIds [] = mixIds"
| "pushNew mixIds (m # ms) =
     pushNew (if m \<notin> set mixIds then mixIds @ [m] else mixIds) ms"

definition extractMixIds :: "string \<Rightarrow> string list" where
  "extractMixIds html = pushNew [] (map (grp 1) (execAll False mixIdRe html))"

section \<open>The importer: tracks\<close>

record track =
  title :: string
  artist :: string

text \<open>\<open>html.replace(/>\s+</g, '><').replace(/\n/g, ' ')\<close>.\<close>

definition normalizeHtml :: "string \<Rightarrow> string" where
  "normalizeHtml html =
     replaceAll False (lits [CHR 0x0A]) '' ''
       (replaceAll False (seqs [lits ''>'', rplus True ws, lits ''<'']) ''><'' html)"

text \<open>\<open>.replace(/<[^>]+>/g, '')\<close>.\<close>

definition stripTags :: "string \<Rightarrow> string" where
  "stripTags s =
     replaceAll False (seqs [lits ''<'', rplus True (notChar (CHR ''>'')), lits ''>'']) '''' s"

text \<open>\<open>/<tr[^>]*>\s*<td[^>]*>([\s\S]*?)<\/td>\s*<td[^>]*>([\s\S]*?)<\/td>/gi\<close>.\<close>

definition rowRegex :: re where
  "rowRegex =
     seqs [lits ''<tr'', Star True (notChar (CHR ''>'')), lits ''>'', Star True ws,
           lits ''<td'', Star True (notChar (CHR ''>'')), lits ''>'',
           Grp 1 (Star False anyChar), lits ''</td>'', Star True ws,
           lits ''<td'', Star True (notChar (CHR ''>'')), lits ''>'',
           Grp 2 (Star False anyChar), lits ''</td>'']"

text \<open>\<open>/<li[^>]*>([\s\S]*?)<\/li>/gi\<close>.\<close>

definition listItemRegex :: re where
  "listItemRegex =
     seqs [lits ''<li'', Star True (notChar (CHR ''>'')), lits ''>'',
           Grp 1 (Star False anyChar), lits ''</li>'']"

text \<open>The pattern of one list item: a lazy artist, a dash, an optional quote, a lazy title,
  an optional quote, the end. Of the three dashes the source names, the hyphen is a code
  unit of the model.\<close>

definition trackRegex :: re where
  "trackRegex =
     seqs [Bol, Grp 1 (rplus False dot), Star True ws, Cls False [Ch (CHR ''-'')], Star True ws,
           ropt (Cls False [Ch (CHR 0x22), Ch (CHR 0x22)]), Grp 2 (rplus False dot),
           ropt (Cls False [Ch (CHR 0x22), Ch (CHR 0x22)]), Eol]"

text \<open>The loop over the table rows, each given by its two cells, with its two
  \<open>continue\<close> statements.\<close>

fun rowTracks :: "(string \<times> string) list \<Rightarrow> track list" where
  "rowTracks [] = []"
| "rowTracks ((cell1, cell2) # rows) =
     (let artist = trim (stripTags cell1);
          song = trim (stripTags cell2)
      in if toLowerCase artist = ''artist'' \<or> toLowerCase song = ''song'' then rowTracks rows
         else if artist = [] \<or> song = [] then rowTracks rows
         else \<lparr>title = toLowerCase song, artist = toLowerCase artist\<rparr> # rowTracks rows)"

text \<open>The loop over the list items, each given by its content.\<close>

fun itemTracks :: "string list \<Rightarrow> track list" where
  "itemTracks [] = []"
| "itemTracks (li # lis) =
     (let item = trim (stripTags li)
      in case rmatch False trackRegex item of
           Some (i, cs) \<Rightarrow>
             \<lparr>title = toLowerCase (trim (grp 2 cs)), artist = toLowerCase (trim (grp 1 cs))\<rparr>
               # itemTracks lis
         | None \<Rightarrow> itemTracks lis)"

definition primaryTracks :: "string \<Rightarrow> track list" where
  "primaryTracks html =
     rowTracks (map (\<lambda>cs. (grp 1 cs, grp 2 cs)) (execAll True rowRegex (normalizeHtml html)))"

definition fallbackTracks :: "string \<Rightarrow> track list" where
  "fallbackTracks html =
     itemTracks (map (grp 1) (execAll True listItemRegex (normalizeHtml html)))"

definition extractTracksFromHtml :: "string \<Rightarrow> track list" where
  "extractTracksFromHtml html =
     (let tracks = primaryTracks html
      in if length tracks = 0 then fallbackTracks html else tracks)"

section \<open>The importer: one mix page\<close>

record mixData =
  data_id :: string
  data_title :: string
  data_date :: string
  data_format :: string
  data_notes :: string
  data_tracks :: "track list"
  data_sideA :: "track list option"
  data_sideB :: "track list option"

text \<open>The three title patterns, \<open>/<h1[^>]*>([^<]+)<\/h1>/i\<close>, \<open>/<title>([^<|]+)/i\<close> and
  \<open>/class="?mix-title"?[^>]*>([^<]+)</i\<close>, and the suffix
  \<open>/\s+by\s+natalyesaurus\.?$/i\<close>.\<close>

definition h1Regex :: re where
  "h1Regex =
     seqs [lits ''<h1'', Star True (notChar (CHR ''>'')), lits ''>'',
           Grp 1 (rplus True (notChar (CHR ''<''))), lits ''</h1>'']"

definition titleTagRegex :: re where
  "titleTagRegex =
     seqs [lits ''<title>'', Grp 1 (rplus True (Cls True [Ch (CHR ''<''), Ch (CHR ''|'')]))]"

definition mixTitleRegex :: re where
  "mixTitleRegex =
     seqs [lits ''class='', ropt (lits [CHR 0x22]), lits ''mix-title'', ropt (lits [CHR 0x22]),
           Star True (notChar (CHR ''>'')), lits ''>'',
           Grp 1 (rplus True (notChar (CHR ''<''))), lits ''<'']"

definition bySuffixRegex :: re where
  "bySuffixRegex =
     seqs [rplus True ws, lits ''by'', rplus True ws, lits ''natalyesaurus'',
           ropt (lits ''.''), Eol]"

text \<open>The date patterns, \<open>/Submit\s*Date[:\s]*(\d{1,2}\/\d{1,2}\/\d{4})/i\<close> and
  \<open>/Submitted[:\s]*(\d{1,2}\/\d{1,2}\/\d{4})/i\<close>.\<close>

definition dateRegex :: re where
  "dateRegex = seqs [rep12 digit, lits ''/'', rep12 digit, lits ''/'', rep4 digit]"

definition submitDateRegex :: re where
  "submitDateRegex =
     seqs [lits ''Submit'', Star True ws, lits ''Date'',
           Star True (Cls False [Ch (CHR '':''), WS]), Grp 1 dateRegex]"

definition submittedRegex :: re where
  "submittedRegex =
     seqs [lits ''Submitted'', Star True (Cls False [Ch (CHR '':''), WS]), Grp 1 dateRegex]"

text \<open>\<open>/Format[:\s]*(CD|Cassette|Playlist)/i\<close>.\<close>

definition formatRegex :: re where
  "formatRegex =
     seqs [lits ''Format'', Star True (Cls False [Ch (CHR '':''), WS]),
           Grp 1 (Alt (lits ''CD'') (Alt (lits ''Cassette'') (lits ''Playlist'')))]"

text \<open>The dedication patterns, \<open>/;\s*for\s+([a-z][a-z\s.]+?)(?:\.|<|$)/i\<close> and
  \<open>/dedicated?\s+(?:to\s+)?([a-z][a-z\s.]+?)(?:\.|<|$)/i\<close>.\<close>

definition nameRegex :: re where
  "nameRegex =
     Seq (Cls False [Rng (CHR ''a'') (CHR ''z'')])
         (rplus False (Cls False [Rng (CHR ''a'') (CHR ''z''), WS, Ch (CHR ''.'')]))"

definition forRegex :: re where
  "forRegex =
     seqs [lits '';'', Star True ws, lits ''for'', rplus True ws, Grp 1 nameRegex,
           Alt (lits ''.'') (Alt (lits ''<'') Eol)]"

definition dedicatedRegex :: re where
  "dedicatedRegex =
     seqs [lits ''dedicate'', ropt (lits ''d''), rplus True ws,
           ropt (Seq (lits ''to'') (rplus True ws)), Grp 1 nameRegex,
           Alt (lits ''.'') (Alt (lits ''<'') Eol)]"

text \<open>\<open>/Side\s*A/i\<close> and \<open>/Side\s*B/i\<close>.\<close>

definition sideARegex :: re where
  "sideARegex = seqs [lits ''Side'', Star True ws, lits ''A'']"

definition sideBRegex :: re where
  "sideBRegex = seqs [lits ''Side'', Star True ws, lits ''B'']"

definition extractTitle :: "string \<Rightarrow> string" where
  "extractTitle normalizedHtml =
     (let titleMatch =
            orElse (rmatch True h1Regex normalizedHtml)
              (orElse (rmatch True titleTagRegex normalizedHtml)
                 (rmatch True mixTitleRegex normalizedHtml))
      in case titleMatch of
           Some (i, cs) \<Rightarrow>
             replaceFirst True bySuffixRegex ''''
               (replaceAll False (rplus True ws) '' '' (trim (grp 1 cs)))
         | None \<Rightarrow> '''')"

definition extractDate :: "string \<Rightarrow> error + string" where
  "extractDate html =
     (let dateMatch = orElse (rmatch True submitDateRegex html) (rmatch True submittedRegex html)
      in case dateMatch of
           Some (i, cs) \<Rightarrow> parseDate (grp 1 cs)
         | None \<Rightarrow> Inr '''')"

definition extractFormat :: "string \<Rightarrow> string" where
  "extractFormat html =
     (case rmatch True formatRegex html of
        Some (i, cs) \<Rightarrow> toLowerCase (grp 1 cs)
      | None \<Rightarrow> ''cd'')"

definition extractNotes :: "string \<Rightarrow> string" where
  "extractNotes html =
     (let dedicationMatch = orElse (rmatch True forRegex html) (rmatch True dedicatedRegex html)
      in case dedicationMatch of
           Some (i, cs) \<Rightarrow> ''for '' @ toLowerCase (trim (grp 1 cs))
         | None \<Rightarrow> '''')"

text \<open>\<open>extractMixData\<close>: the fields in the order of the source, then the split into two
  sides. The only call that can throw is \<open>parseDate\<close>.\<close>

definition extractMixData :: "string \<Rightarrow> string \<Rightarrow> error + mixData" where
  "extractMixData html mixId =
     (let normalizedHtml = normalizeHtml html;
          title = extractTitle normalizedHtml
      in case extractDate html of
           Inl err \<Rightarrow> Inl err
         | Inr date \<Rightarrow>
             (let format = extractFormat html;
                  notes = extractNotes html;
                  hasSideA = test True sideARegex html;
                  hasSideB = test True sideBRegex html;
                  isCassette = (format = ''cassette'' \<or> (hasSideA \<and> hasSideB))
              in if isCassette \<and> hasSideA \<and> hasSideB
                 then (let sideBIndex = search True sideBRegex html;
                           sideAHtml = substring html 0 sideBIndex;
                           sideBHtml = substringFrom html sideBIndex;
                           sideA = extractTracksFromHtml sideAHtml;
                           sideB = extractTracksFromHtml sideBHtml
                       in Inr \<lparr>data_id = mixId, data_title = title, data_date = date,
                                data_format = ''cassette'', data_notes = notes,
                                data_tracks = sideA @ sideB,
                                data_sideA = Some sideA, data_sideB = Some sideB\<rparr>)
                 else Inr \<lparr>data_id = mixId, data_title = title, data_date = date,
                           data_format = format, data_notes = notes,
                           data_tracks = extractTracksFromHtml normalizedHtml,
                           data_sideA = None, data_sideB = None\<rparr>))"

section \<open>JSON and the record writer\<close>

text \<open>A JSON value as \<open>JSON.parse\<close> returns it and \<open>JSON.stringify\<close> prints it: an object
  is the list of its properties in their order. \<open>'n\<close> is the type of the numbers.\<close>

datatype 'n json =
    JNull
  | JBool bool
  | JNum 'n
  | JStr string
  | JArr "'n json list"
  | JObj "(string \<times> 'n json) list"

definition trackJson :: "track \<Rightarrow> 'n json" where
  "trackJson t = JObj [(''title'', JStr (title t)), (''artist'', JStr (artist t))]"

text \<open>\<open>createMixFile\<close>: the file is named by the slug, in the output directory, and holds
  \<open>JSON.stringify(jsonData, null, 2)\<close> and a line feed. The model keeps the object that is
  printed.\<close>

definition fileName :: "mixData \<Rightarrow> string" where
  "fileName mixData = slugify (data_title mixData) @ ''.json''"

definition jsonData :: "mixData \<Rightarrow> 'n json" where
  "jsonData mixData =
     JObj ([(''title'', JStr (toLowerCase (data_title mixData))),
            (''date'', JStr (data_date mixData)),
            (''format'', JStr (data_format mixData)),
            (''notes'', JStr (data_notes mixData)),
            (''artOfTheMixUrl'', JStr (''https://www.artofthemix.org/mix/'' @ data_id mixData)),
            (''tracks'', JArr (map trackJson (data_tracks mixData)))]
           @ (case (data_sideA mixData, data_sideB mixData) of
                (Some sideA, Some sideB) \<Rightarrow>
                  if data_format mixData = ''cassette''
                  then [(''sideA'', JArr (map trackJson sideA)),
                        (''sideB'', JArr (map trackJson sideB))]
                  else []
              | _ \<Rightarrow> []))"

text \<open>The world of a run: the network, and whether the file system accepts the write
  of a file when the run has issued \<open>t\<close> requests.\<close>

record env =
  network :: "nat \<Rightarrow> string \<Rightarrow> response"
  writable :: "nat \<Rightarrow> string \<Rightarrow> bool"

text \<open>The state of a run: the requests issued, the two counters, and the files of the
  output directory that the run has written, by name.\<close>

record 'n run =
  clock :: nat
  created :: nat
  errors :: nat
  files :: "string \<Rightarrow> 'n json option"

definition createMixFile :: "env \<Rightarrow> 'n run \<Rightarrow> mixData \<Rightarrow> error + 'n run" where
  "createMixFile world st mixData =
     (if writable world (clock st) (fileName mixData)
      then Inr (st\<lparr>files := (files st)(fileName mixData \<mapsto> jsonData mixData)\<rparr>)
      else Inl (Error ''writeFileSync failed''))"

section \<open>The orchestrator\<close>

text \<open>Step 1: the list pages 1 to 44, one request each; a page that cannot be fetched
  adds nothing.\<close>

fun collectIds :: "env \<Rightarrow> nat list \<Rightarrow> nat \<times> string list \<Rightarrow> nat \<times> string list" where
  "collectIds world [] (t, allMixIds) = (t, allMixIds)"
| "collectIds world (page # pages) (t, allMixIds) =
     collectIds world pages
       (Suc t,
        case fetchPage (network world) t
               (BASE_URL @ ''/members/'' @ MEMBER_ID @ ''/mixes/'' @ showNat page) of
          Inr html \<Rightarrow> allMixIds @ extractMixIds html
        | Inl err \<Rightarrow> allMixIds)"

text \<open>Step 2, for one extracted record: the test of line 269 and, around
  \<open>createMixFile\<close>, the \<open>catch\<close> of the loop body.\<close>

definition persist :: "env \<Rightarrow> 'n run \<Rightarrow> mixData \<Rightarrow> 'n run" where
  "persist world st mixData =
     (if data_title mixData \<noteq> [] \<and> length (data_tracks mixData) > 0
      then (case createMixFile world st mixData of
              Inr st' \<Rightarrow> st'\<lparr>created := Suc (created st')\<rparr>
            | Inl err \<Rightarrow> st\<lparr>errors := Suc (errors st)\<rparr>)
      else st\<lparr>errors := Suc (errors st)\<rparr>)"

text \<open>Step 2, for one id: the body of the loop, with its \<open>try\<close> and \<open>catch\<close>.\<close>

definition processMix :: "env \<Rightarrow> 'n run \<Rightarrow> string \<Rightarrow> 'n run" where
  "processMix world st mixId =
     (let st1 = st\<lparr>clock := Suc (clock st)\<rparr>
      in case fetchPage (network world) (clock st) (BASE_URL @ ''/mix/'' @ mixId) of
           Inl err \<Rightarrow> st1\<lparr>errors := Suc (errors st1)\<rparr>
         | Inr html \<Rightarrow>
             (case extractMixData html mixId of
                Inl err \<Rightarrow> st1\<lparr>errors := Suc (errors st1)\<rparr>
              | Inr mixData \<Rightarrow> persist world st1 mixData))"

fun processAll :: "env \<Rightarrow> 'n run \<Rightarrow> string list \<Rightarrow> 'n run" where
  "processAll world st [] = st"
| "processAll world st (mixId # mixIds) = processAll world (processMix world st mixId) mixIds"

definition importMixes :: "env \<Rightarrow> (string \<Rightarrow> 'n json option) \<Rightarrow> 'n run" where
  "importMixes world disk =
     (case collectIds world [1..<45] (0, []) of
        (t, allMixIds) \<Rightarrow>
          processAll world \<lparr>clock = t, created = 0, errors = 0, files = disk\<rparr> allMixIds)"

section \<open>The normalizer\<close>

text \<open>
  The second script reads every file of the directory, parses it, cleans it and writes it
  back. \<open>getProp\<close> is the read of a property of a parsed value: of \<open>null\<close> it throws, of an
  object it gives the property or \<open>undefined\<close> (\<open>None\<close>), and an array, a string, a number
  or a boolean has none of the five properties the script reads.
\<close>

fun getProp :: "'n json \<Rightarrow> string \<Rightarrow> error + 'n json option" where
  "getProp JNull k = Inl TypeError"
| "getProp (JObj kvs) k = Inr (map_of kvs k)"
| "getProp v k = Inr None"

fun truthy :: "('n::zero) json option \<Rightarrow> bool" where
  "truthy None = False"
| "truthy (Some JNull) = False"
| "truthy (Some (JBool b)) = b"
| "truthy (Some (JNum x)) = (x \<noteq> 0)"
| "truthy (Some (JStr s)) = (s \<noteq> [])"
| "truthy (Some (JArr xs)) = True"
| "truthy (Some (JObj kvs)) = True"

text \<open>\<open>v.replace(/&nbsp;/g, '').trim()\<close>: only a string has \<open>replace\<close>.\<close>

definition clean :: "string \<Rightarrow> string" where
  "clean s = trim (replaceAll False (lits ''&nbsp;'') '''' s)"

fun cleanString :: "'n json option \<Rightarrow> error + string" where
  "cleanString (Some (JStr s)) = Inr (clean s)"
| "cleanString v = Inl TypeError"

definition cleanTrack :: "'n json \<Rightarrow> error + 'n json" where
  "cleanTrack track =
     (case getProp track ''title'' of
        Inl err \<Rightarrow> Inl err
      | Inr t \<Rightarrow>
          (case cleanString t of
             Inl err \<Rightarrow> Inl err
           | Inr title' \<Rightarrow>
               (case getProp track ''artist'' of
                  Inl err \<Rightarrow> Inl err
                | Inr a \<Rightarrow>
                    (case cleanString a of
                       Inl err \<Rightarrow> Inl err
                     | Inr artist' \<Rightarrow>
                         Inr (JObj [(''title'', JStr title'), (''artist'', JStr artist')])))))"

fun cleanEach :: "'n json list \<Rightarrow> error + 'n json list" where
  "cleanEach [] = Inr []"
| "cleanEach (track # tracks) =
     (case cleanTrack track of
        Inl err \<Rightarrow> Inl err
      | Inr track' \<Rightarrow>
          (case cleanEach tracks of
             Inl err \<Rightarrow> Inl err
           | Inr tracks' \<Rightarrow> Inr (track' # tracks')))"

text \<open>\<open>cleanTracks\<close>: only an array has \<open>map\<close>.\<close>

fun cleanTracks :: "'n json option \<Rightarrow> error + 'n json" where
  "cleanTracks (Some (JArr tracks)) =
     (case cleanEach tracks of Inl err \<Rightarrow> Inl err | Inr tracks' \<Rightarrow> Inr (JArr tracks'))"
| "cleanTracks v = Inl TypeError"

text \<open>\<open>data.k = v\<close> for a property the object has: the value changes, the place of the
  property in the object does not.\<close>

fun assign :: "'n json \<Rightarrow> string \<Rightarrow> 'n json \<Rightarrow> 'n json" where
  "assign (JObj kvs) k v = JObj (AList.update k v kvs)"
| "assign d k v = d"

text \<open>\<open>if (data.k) { data.k = cleanTracks(data.k); }\<close>.\<close>

definition cleanField :: "('n::zero) json \<Rightarrow> string \<Rightarrow> error + 'n json" where
  "cleanField data k =
     (case getProp data k of
        Inl err \<Rightarrow> Inl err
      | Inr v \<Rightarrow>
          if truthy v
          then (case cleanTracks v of
                  Inl err \<Rightarrow> Inl err
                | Inr tracks' \<Rightarrow> Inr (assign data k tracks'))
          else Inr data)"

text \<open>\<open>if (data.title) { data.title = data.title.replace(/&nbsp;/g, '').trim(); }\<close>.\<close>

definition cleanTitle :: "('n::zero) json \<Rightarrow> error + 'n json" where
  "cleanTitle data =
     (case getProp data ''title'' of
        Inl err \<Rightarrow> Inl err
      | Inr v \<Rightarrow>
          if truthy v
          then (case cleanString v of
                  Inl err \<Rightarrow> Inl err
                | Inr title' \<Rightarrow> Inr (assign data ''title'' (JStr title')))
          else Inr data)"

text \<open>The body of the \<open>try\<close> between \<open>JSON.parse\<close> and \<open>JSON.stringify\<close>, on the parsed
  value \<open>data\<close>: \<open>Inr\<close> is the value that is printed.\<close>

definition normalizeFile :: "('n::zero) json \<Rightarrow> error + 'n json" where
  "normalizeFile data =
     (case cleanField data ''tracks'' of
        Inl err \<Rightarrow> Inl err
      | Inr d1 \<Rightarrow>
          (case cleanField d1 ''sideA'' of
             Inl err \<Rightarrow> Inl err
           | Inr d2 \<Rightarrow>
               (case cleanField d2 ''sideB'' of
                  Inl err \<Rightarrow> Inl err
                | Inr d3 \<Rightarrow> cleanTitle d3)))"

text \<open>
  \<open>JSON.parse\<close> and \<open>JSON.stringify\<close>. The text of a file is the tree \<open>'l json\<close> of what is
  written: the members of an object in the order of the text, a key as often as it is
  written, and a number as the literal \<open>'l\<close>. The parsed value is a \<open>'n json\<close>: its numbers
  are the doubles \<open>'n\<close> (with one zero), and the list of an object holds its properties in
  the order in which JavaScript enumerates them. \<open>rd\<close> is the reading of a literal, the
  double nearest to it or an infinity; \<open>pr\<close> is the printing of a double, \<open>None\<close> for an
  infinity, in place of which \<open>JSON.stringify\<close> prints \<open>null\<close>. A text is the string it
  denotes, whatever escapes the file uses, and the indentation is not kept: the printed
  text is a function of the printed tree.

  A key is an array index when it is the decimal numeral, without a sign or a leading
  zero, of an integer below \<open>2\<^sup>3\<^sup>2 - 1\<close>. An object enumerates its array indices first, in
  ascending order, and then its other keys in the order of their creation.
  \<open>createDataProperty\<close> is the step of \<open>JSON.parse\<close> for one member: a key the object has
  keeps its place and gets the new value, a new key is put in its place of the
  enumeration.
\<close>

definition digitsInt :: "string \<Rightarrow> int" where
  "digitsInt k = foldl (\<lambda>n c. 10 * n + (charCode c - 48)) 0 k"

definition arrayIndex :: "string \<Rightarrow> int option" where
  "arrayIndex k =
     (if k \<noteq> [] \<and> list_all isDigit k \<and> (hd k \<noteq> CHR ''0'' \<or> k = ''0'') \<and>
         digitsInt k < 4294967295
      then Some (digitsInt k) else None)"

fun insertKey :: "string \<Rightarrow> 'n json \<Rightarrow> (string \<times> 'n json) list \<Rightarrow> (string \<times> 'n json) list" where
  "insertKey k v [] = [(k, v)]"
| "insertKey k v ((k', v') # ps) =
     (case arrayIndex k of
        None \<Rightarrow> (k', v') # insertKey k v ps
      | Some i \<Rightarrow>
          (case arrayIndex k' of
             None \<Rightarrow> (k, v) # (k', v') # ps
           | Some j \<Rightarrow> if j < i then (k', v') # insertKey k v ps else (k, v) # (k', v') # ps))"

definition createDataProperty ::
  "(string \<times> 'n json) list \<Rightarrow> string \<times> 'n json \<Rightarrow> (string \<times> 'n json) list" where
  "createDataProperty ps p =
     (if fst p \<in> fst ` set ps then AList.update (fst p) (snd p) ps
      else insertKey (fst p) (snd p) ps)"

primrec parse :: "('l \<Rightarrow> 'n) \<Rightarrow> 'l json \<Rightarrow> 'n json" where
  "parse rd JNull = JNull"
| "parse rd (JBool b) = JBool b"
| "parse rd (JNum l) = JNum (rd l)"
| "parse rd (JStr s) = JStr s"
| "parse rd (JArr xs) = JArr (map (parse rd) xs)"
| "parse rd (JObj ms) = JObj (foldl createDataProperty [] (map (map_prod id (parse rd)) ms))"

primrec stringify :: "('n \<Rightarrow> 'l option) \<Rightarrow> 'n json \<Rightarrow> 'l json" where
  "stringify pr JNull = JNull"
| "stringify pr (JBool b) = JBool b"
| "stringify pr (JNum x) = (case pr x of Some l \<Rightarrow> JNum l | None \<Rightarrow> JNull)"
| "stringify pr (JStr s) = JStr s"
| "stringify pr (JArr xs) = JArr (map (stringify pr) xs)"
| "stringify pr (JObj ps) = JObj (map (map_prod id (stringify pr)) ps)"

text \<open>The body of the loop for one file, whose content is a JSON text or is none (\<open>None\<close>):
  \<open>Inr\<close> is the text that \<open>writeFileSync\<close> is given for the file; with \<open>Inl\<close> the error
  is logged and the file is left as it was.\<close>

definition reformatFile ::
  "('l \<Rightarrow> 'n::zero) \<Rightarrow> ('n \<Rightarrow> 'l option) \<Rightarrow> 'l json option \<Rightarrow> error + 'l json" where
  "reformatFile rd pr content =
     (case content of
        None \<Rightarrow> Inl SyntaxError
      | Some doc \<Rightarrow>
          (case normalizeFile (parse rd doc) of
             Inl err \<Rightarrow> Inl err
           | Inr data \<Rightarrow> Inr (stringify pr data)))"

section \<open>Example inputs\<close>

text \<open>A page with a heading, a date and one list item, and the record the importer reads
  from it; a site that answers 404 for the mix 404 and this page for every other URL, first
  with a file system that accepts every write and then with one that accepts none; a
  site that serves two list pages, both naming the mix 7; and a run that starts now.\<close>

definition demoPage :: string where
  "demoPage = ''<h1>T</h1>Submit Date: 7/4/1999<li>a-b</li>''"

definition demoMix :: mixData where
  "demoMix =
     \<lparr>data_id = ''1'', data_title = ''T'', data_date = ''1999-07-04'', data_format = ''cd'',
      data_notes = [], data_tracks = [\<lparr>title = ''b'', artist = ''a''\<rparr>],
      data_sideA = None, data_sideB = None\<rparr>"

definition demoWorld :: env where
  "demoWorld =
     \<lparr>network = (\<lambda>t url. if url = BASE_URL @ ''/mix/404'' then Response 404 [] else Response 200 demoPage),
      writable = (\<lambda>t f. True)\<rparr>"

definition fullDisk :: env where
  "fullDisk = demoWorld\<lparr>writable := (\<lambda>t f. False)\<rparr>"

definition freshRun :: "int run" where
  "freshRun = \<lparr>clock = 0, created = 0, errors = 0, files = Map.empty\<rparr>"

definition twoPages :: env where
  "twoPages =
     \<lparr>network = (\<lambda>t url. if t < 2 then Response 200 ''/mix/7'' else Response 404 []),
      writable = (\<lambda>t f. True)\<rparr>"

text \<open>A page with no date, and a page of a cassette with the two side markers and two
  table rows on each side, with the records the importer reads from them.\<close>

definition noDatePage :: string where
  "noDatePage = ''<h1>T</h1><li>a-b</li>''"

definition noDateMix :: mixData where
  "noDateMix =
     \<lparr>data_id = ''9'', data_title = ''T'', data_date = [], data_format = ''cd'',
      data_notes = [], data_tracks = [\<lparr>title = ''b'', artist = ''a''\<rparr>],
      data_sideA = None, data_sideB = None\<rparr>"

definition sidesPage :: string where
  "sidesPage =
     ''Format: Cassette Side A<tr><td>a</td><td>b</td><tr><td>c</td><td>d</td>'' @
     ''Side B<tr><td>e</td><td>f</td><tr><td>g</td><td>h</td>''"

definition sidesMix :: mixData where
  "sidesMix =
     \<lparr>data_id = ''1'', data_title = [], data_date = [], data_format = ''cassette'',
      data_notes = [],
      data_tracks = [\<lparr>title = ''b'', artist = ''a''\<rparr>, \<lparr>title = ''d'', artist = ''c''\<rparr>,
                     \<lparr>title = ''f'', artist = ''e''\<rparr>, \<lparr>title = ''h'', artist = ''g''\<rparr>],
      data_sideA = Some [\<lparr>title = ''b'', artist = ''a''\<rparr>, \<lparr>title = ''d'', artist = ''c''\<rparr>],
      data_sideB = Some [\<lparr>title = ''f'', artist = ''e''\<rparr>, \<lparr>title = ''h'', artist = ''g''\<rparr>]\<rparr>"

text \<open>A table with one row and a header row; a list item whose title, between its
  quotes, is a space; and a table row whose artist is called Song.\<close>

definition tablePage :: string where
  "tablePage =
     ''<tr><td>Portishead</td><td>Glory Box</td></tr><tr><td>Artist</td><td>Song</td></tr>''"

definition quotedItemPage :: string where
  "quotedItemPage = ''<li>a - '' @ [CHR 0x22, CHR '' '', CHR 0x22] @ ''</li>''"

definition songArtistPage :: string where
  "songArtistPage = ''<tr><td>Song</td><td>x</td></tr>''"

text \<open>A file as the normalizer finds it, with a property the importer does not write and
  a track that has a year; and the value the normalizer writes back.\<close>

definition yearTrack :: "int json" where
  "yearTrack = JObj [(''artist'', JStr ''b ''), (''title'', JStr ''a''), (''year'', JNum 1999)]"

definition yearFile :: "int json" where
  "yearFile =
     JObj [(''title'', JStr ''x&nbsp;''), (''date'', JStr ''1999-07-04''),
           (''tracks'', JArr [yearTrack]), (''published'', JBool True)]"

definition yearOut :: "int json" where
  "yearOut =
     JObj [(''title'', JStr ''x''), (''date'', JStr ''1999-07-04''),
           (''tracks'', JArr [JObj [(''title'', JStr ''a''), (''artist'', JStr ''b'')]]),
           (''published'', JBool True)]"

text \<open>A file with a property the importer does not write, whose value is an object that
  has the key \<open>1\<close> after the key \<open>b\<close>; and the text the normalizer writes back.\<close>

definition chartFile :: "int json" where
  "chartFile =
     JObj [(''title'', JStr ''x''),
           (''chart'', JObj [(''b'', JStr ''u''), (''1'', JStr ''v'')])]"

definition chartOut :: "int json" where
  "chartOut =
     JObj [(''title'', JStr ''x''),
           (''chart'', JObj [(''1'', JStr ''v''), (''b'', JStr ''u'')])]"

section \<open>The vocabulary of the properties\<close>

text \<open>What one list page adds to the ids, as step 1 has it: the ids of the page, or
  nothing when the page cannot be fetched.\<close>

definition pageIds :: "env \<Rightarrow> nat \<Rightarrow> nat \<Rightarrow> string list" where
  "pageIds world t page =
     (case fetchPage (network world) t
             (BASE_URL @ ''/members/'' @ MEMBER_ID @ ''/mixes/'' @ showNat page) of
        Inr html \<Rightarrow> extractMixIds html
      | Inl err \<Rightarrow> [])"


text \<open>
  The words a pattern can match, read as a regular language (the two anchors match the
  empty word), the groups of a pattern with their bodies, and the groups that every match
  of a pattern captures. Whatever state \<open>mt\<close> lists is reached by consuming a word of the
  language; each group it adds holds a word of the language of a body of that group; and a
  group that lies on every path is captured.
\<close>

inductive_set star :: "string set \<Rightarrow> string set" for A :: "string set" where
  star_nil: "[] \<in> star A"
| star_step: "u \<in> A \<Longrightarrow> v \<in> star A \<Longrightarrow> u @ v \<in> star A"

fun lang :: "bool \<Rightarrow> re \<Rightarrow> string set" where
  "lang ic (Cls neg as) = {[x] | x. list_ex (\<lambda>a. atomMatch ic a x) as \<noteq> neg}"
| "lang ic Bol = {[]}"
| "lang ic Eol = {[]}"
| "lang ic Eps = {[]}"
| "lang ic (Seq r1 r2) = {u @ v | u v. u \<in> lang ic r1 \<and> v \<in> lang ic r2}"
| "lang ic (Alt r1 r2) = lang ic r1 \<union> lang ic r2"
| "lang ic (Star greedy r) = star (lang ic r)"
| "lang ic (Grp k r) = lang ic r"

fun groups :: "re \<Rightarrow> (nat \<times> re) list" where
  "groups (Seq r1 r2) = groups r1 @ groups r2"
| "groups (Alt r1 r2) = groups r1 @ groups r2"
| "groups (Star greedy r) = groups r"
| "groups (Grp k r) = (k, r) # groups r"
| "groups r = []"

fun binds :: "nat \<Rightarrow> re \<Rightarrow> bool" where
  "binds k (Grp k' r) = (k = k' \<or> binds k r)"
| "binds k (Seq r1 r2) = (binds k r1 \<or> binds k r2)"
| "binds k (Alt r1 r2) = (binds k r1 \<and> binds k r2)"
| "binds k r = False"

definition captured :: "bool \<Rightarrow> re \<Rightarrow> captures \<Rightarrow> bool" where
  "captured ic r new =
     ((\<forall>(k, t) \<in> set new. \<exists>b. (k, b) \<in> set (groups r) \<and> t \<in> lang ic b) \<and>
      (\<forall>k. binds k r \<longrightarrow> k \<in> fst ` set new))"

definition reaches :: "bool \<Rightarrow> re \<Rightarrow> mstate \<Rightarrow> mstate \<Rightarrow> bool" where
  "reaches ic r st st' =
     (\<exists>w new. fst (snd st) = w @ fst (snd st') \<and> fst st' = fst st + length w \<and> w \<in> lang ic r \<and>
        snd (snd st') = snd (snd st) @ new \<and>
        captured ic r new)"

text \<open>The pattern of a list item after its first group.\<close>

definition trackRest :: re where
  "trackRest =
     seqs [Star True ws, Cls False [Ch (CHR ''-'')], Star True ws,
           ropt (Cls False [Ch (CHR 0x22), Ch (CHR 0x22)]), Grp 2 (rplus False dot),
           ropt (Cls False [Ch (CHR 0x22), Ch (CHR 0x22)]), Eol]"

text \<open>The code units that \<open>toLowerCase\<close> changes.\<close>

definition upperCase :: "char \<Rightarrow> bool" where
  "upperCase x =
     ((65 \<le> charCode x \<and> charCode x \<le> 90) \<or>
      (192 \<le> charCode x \<and> charCode x \<le> 222 \<and> charCode x \<noteq> 215))"

text \<open>The ASCII letters and digits.\<close>

definition asciiAlnum :: "char \<Rightarrow> bool" where
  "asciiAlnum c =
     (isDigit c \<or> (65 \<le> charCode c \<and> charCode c \<le> 90) \<or> (97 \<le> charCode c \<and> charCode c \<le> 122))"

text \<open>The canonical form of a date: four digits, a hyphen, two digits, a hyphen, two
  digits.\<close>

definition canonicalDate :: "string \<Rightarrow> bool" where
  "canonicalDate s =
     (length s = 10 \<and> list_all isDigit (take 4 s) \<and> s ! 4 = CHR ''-'' \<and>
      list_all isDigit (take 2 (drop 5 s)) \<and> s ! 7 = CHR ''-'' \<and> list_all isDigit (drop 8 s))"

text \<open>
  \<open>framed K d d'\<close>: \<open>d'\<close> is \<open>d\<close>, or both are objects with the same properties in the same
  order, with the same values but for the properties in \<open>K\<close>. \<open>rewritten\<close>: a track entry
  becomes an object with its cleaned title and its cleaned artist, in this order, and
  nothing else. \<open>tracksCleaned\<close> and \<open>titleCleaned\<close>: what the normalizer does to a track
  list and to the title.
\<close>

definition touched :: "string set" where
  "touched = {''title'', ''tracks'', ''sideA'', ''sideB''}"

text \<open>
  The member \<open>k\<close> of a text or of a value that is an object. \<open>roundTrip\<close>: what
  \<open>JSON.stringify\<close> prints for the value that \<open>JSON.parse\<close> reads from a text. A text is
  plain when this gives the text back for a reason that the text shows: each of its
  numbers is printed as it is written, and each of its objects has its keys once and no
  array index among them.
\<close>

fun fieldOf :: "'a json \<Rightarrow> string \<Rightarrow> 'a json option" where
  "fieldOf (JObj ps) k = map_of ps k"
| "fieldOf v k = None"

definition roundTrip :: "('l \<Rightarrow> 'n) \<Rightarrow> ('n \<Rightarrow> 'l option) \<Rightarrow> 'l json \<Rightarrow> 'l json" where
  "roundTrip rd pr v = stringify pr (parse rd v)"

primrec plain :: "('l \<Rightarrow> 'n) \<Rightarrow> ('n \<Rightarrow> 'l option) \<Rightarrow> 'l json \<Rightarrow> bool" where
  "plain rd pr JNull = True"
| "plain rd pr (JBool b) = True"
| "plain rd pr (JNum l) = (pr (rd l) = Some l)"
| "plain rd pr (JStr s) = True"
| "plain rd pr (JArr xs) = list_all (plain rd pr) xs"
| "plain rd pr (JObj ms) =
     (distinct (map fst ms) \<and> list_all (\<lambda>k. arrayIndex k = None) (map fst ms) \<and>
      list_all (pred_prod (\<lambda>k. True) (plain rd pr)) ms)"

definition framed :: "string set \<Rightarrow> 'n json \<Rightarrow> 'n json \<Rightarrow> bool" where
  "framed K d d' =
     (case d of
        JObj kvs \<Rightarrow>
          (\<exists>kvs'. d' = JObj kvs' \<and>
             list_all2 (\<lambda>p p'. fst p' = fst p \<and> (fst p \<notin> K \<longrightarrow> snd p' = snd p)) kvs kvs')
      | _ \<Rightarrow> d' = d)"

definition rewritten :: "'n json \<Rightarrow> 'n json \<Rightarrow> bool" where
  "rewritten track track' =
     (\<exists>a b. getProp track ''title'' = Inr (Some (JStr a)) \<and>
            getProp track ''artist'' = Inr (Some (JStr b)) \<and>
            track' = JObj [(''title'', JStr (clean a)), (''artist'', JStr (clean b))])"

definition tracksCleaned :: "('n::zero) json \<Rightarrow> 'n json \<Rightarrow> string \<Rightarrow> bool" where
  "tracksCleaned d d' k =
     (\<exists>v. getProp d k = Inr v \<and>
        (if truthy v
         then \<exists>ts ts'. v = Some (JArr ts) \<and> getProp d' k = Inr (Some (JArr ts')) \<and>
                list_all2 rewritten ts ts'
         else getProp d' k = Inr v))"

definition titleCleaned :: "('n::zero) json \<Rightarrow> 'n json \<Rightarrow> bool" where
  "titleCleaned d d' =
     (\<exists>v. getProp d ''title'' = Inr v \<and>
        (if truthy v
         then \<exists>s. v = Some (JStr s) \<and> getProp d' ''title'' = Inr (Some (JStr (clean s)))
         else getProp d' ''title'' = Inr v))"

text \<open>One step of the normalizer on the property \<open>k\<close>: the value is left as it is, or it
  is an object in which the property \<open>k\<close>, which it has, gets a new value.\<close>

definition stepOn :: "string \<Rightarrow> 'n json \<Rightarrow> 'n json \<Rightarrow> bool" where
  "stepOn k d d' =
     (d' = d \<or> (\<exists>kvs x v. d = JObj kvs \<and> map_of kvs k = Some x \<and> d' = JObj (AList.update k v kvs)))"

text \<open>The texts the normalizer cleans in a record: the title, and the title and the artist
  of every entry of the three track lists. A text is free of the token when \<open>&nbsp;\<close>
  does not occur in it.\<close>

definition tokenFree :: "string \<Rightarrow> bool" where
  "tokenFree s = (\<not> sublist ''&nbsp;'' s)"

definition strs :: "error + 'n json option \<Rightarrow> string list" where
  "strs v = (case v of Inr (Some (JStr s)) \<Rightarrow> [s] | _ \<Rightarrow> [])"

definition entryTexts :: "'n json \<Rightarrow> string list" where
  "entryTexts track = strs (getProp track ''title'') @ strs (getProp track ''artist'')"

definition arrTexts :: "error + 'n json option \<Rightarrow> string list" where
  "arrTexts v = (case v of Inr (Some (JArr tracks)) \<Rightarrow> concat (map entryTexts tracks) | _ \<Rightarrow> [])"

definition texts :: "'n json \<Rightarrow> string list" where
  "texts d =
     strs (getProp d ''title'') @ arrTexts (getProp d ''tracks'') @
     arrTexts (getProp d ''sideA'') @ arrTexts (getProp d ''sideB'')"

section \<open>Reasoning about matches\<close>

lemma reachesI:
  "fst (snd st) = w @ fst (snd st') \<Longrightarrow> fst st' = fst st + length w \<Longrightarrow> w \<in> lang ic r \<Longrightarrow>
   snd (snd st') = snd (snd st) @ new \<Longrightarrow> captured ic r new \<Longrightarrow> reaches ic r st st'"
  unfolding reaches_def by blast

lemma reachesE:
  assumes "reaches ic r st st'"
  obtains w new where "fst (snd st) = w @ fst (snd st')" "fst st' = fst st + length w"
    "w \<in> lang ic r" "snd (snd st') = snd (snd st) @ new" "captured ic r new"
  using assms unfolding reaches_def by blast

lemma captured_Nil: "\<forall>k. \<not> binds k r \<Longrightarrow> captured ic r []"
  by (simp add: captured_def)

lemma captured_Seq:
  "captured ic r1 new1 \<Longrightarrow> captured ic r2 new2 \<Longrightarrow> captured ic (Seq r1 r2) (new1 @ new2)"
  unfolding captured_def by fastforce

lemma captured_Alt1: "captured ic r1 new \<Longrightarrow> captured ic (Alt r1 r2) new"
  unfolding captured_def by fastforce

lemma captured_Alt2: "captured ic r2 new \<Longrightarrow> captured ic (Alt r1 r2) new"
  unfolding captured_def by fastforce

lemma captured_Star:
  "captured ic r new1 \<Longrightarrow> captured ic (Star g r) new2 \<Longrightarrow> captured ic (Star g r) (new1 @ new2)"
  unfolding captured_def by fastforce

lemma captured_Grp:
  "captured ic r new \<Longrightarrow> w \<in> lang ic r \<Longrightarrow> captured ic (Grp k r) (new @ [(k, w)])"
  unfolding captured_def by fastforce

lemma mt_sound: "st' \<in> set (mt ic r st) \<Longrightarrow> reaches ic r st st'"
proof (induction ic r st arbitrary: st' rule: mt.induct)
  case (1 ic neg as n s cs)
  then show ?case
    by (auto simp: reaches_def captured_def split: list.splits if_splits)
next
  case (2 ic n s cs)
  then show ?case by (auto simp: reaches_def captured_def split: if_splits)
next
  case (3 ic n s cs)
  then show ?case by (auto simp: reaches_def captured_def split: if_splits)
next
  case (4 ic st)
  then show ?case by (auto simp: reaches_def captured_def)
next
  case (5 ic r1 r2 st)
  from 5(3) obtain st1 where a: "st1 \<in> set (mt ic r1 st)" and b: "st' \<in> set (mt ic r2 st1)"
    by auto
  from 5(1) [OF a] obtain w1 new1 where w1: "fst (snd st) = w1 @ fst (snd st1)"
    "fst st1 = fst st + length w1" "w1 \<in> lang ic r1" "snd (snd st1) = snd (snd st) @ new1"
    "captured ic r1 new1"
    by (rule reachesE)
  from 5(2) [OF a b] obtain w2 new2 where w2: "fst (snd st1) = w2 @ fst (snd st')"
    "fst st' = fst st1 + length w2" "w2 \<in> lang ic r2" "snd (snd st') = snd (snd st1) @ new2"
    "captured ic r2 new2"
    by (rule reachesE)
  show ?case
  proof (rule reachesI [where w = "w1 @ w2" and new = "new1 @ new2"])
    show "w1 @ w2 \<in> lang ic (Seq r1 r2)" using w1(3) w2(3) by auto
    show "captured ic (Seq r1 r2) (new1 @ new2)" using w1(5) w2(5) by (rule captured_Seq)
  qed (use w1 w2 in auto)
next
  case (6 ic r1 r2 st)
  from 6(3) consider "st' \<in> set (mt ic r1 st)" | "st' \<in> set (mt ic r2 st)" by auto
  then show ?case
  proof cases
    case 1
    from 6(1) [OF this] show ?thesis
      by (elim reachesE, intro reachesI) (auto intro: captured_Alt1)
  next
    case 2
    from 6(2) [OF this] show ?thesis
      by (elim reachesE, intro reachesI) (auto intro: captured_Alt2)
  qed
next
  case (7 ic greedy r n s cs)
  have stop: "reaches ic (Star greedy r) (n, s, cs) (n, s, cs)"
    by (rule reachesI [where w = "[]" and new = "[]"])
       (auto intro: star.intros simp: captured_def)
  from 7(3) consider "st' = (n, s, cs)"
    | st1 where "st1 \<in> set (mt ic r (n, s, cs))" "length (fst (snd st1)) < length s"
        "st' \<in> set (mt ic (Star greedy r) st1)"
    by (auto simp: Let_def split: if_splits)
  then show ?case
  proof cases
    case 1
    with stop show ?thesis by simp
  next
    case 2
    from 7(1) [OF 2(1)] obtain w1 new1 where w1: "s = w1 @ fst (snd st1)"
      "fst st1 = n + length w1" "w1 \<in> lang ic r" "snd (snd st1) = cs @ new1"
      "captured ic r new1"
      by (rule reachesE) auto
    from 7(2) [OF 2(1) 2(2) 2(3)] obtain w2 new2 where w2: "fst (snd st1) = w2 @ fst (snd st')"
      "fst st' = fst st1 + length w2" "w2 \<in> star (lang ic r)"
      "snd (snd st') = snd (snd st1) @ new2" "captured ic (Star greedy r) new2"
      by (rule reachesE) auto
    show ?thesis
    proof (rule reachesI [where w = "w1 @ w2" and new = "new1 @ new2"])
      show "w1 @ w2 \<in> lang ic (Star greedy r)" using w1(3) w2(3) by (auto intro: star.intros)
      show "captured ic (Star greedy r) (new1 @ new2)" using w1(5) w2(5) by (rule captured_Star)
    qed (use w1 w2 in auto)
  qed
next
  case (8 ic k r n s cs)
  from 8(2) obtain n1 s1 cs1 where a: "(n1, s1, cs1) \<in> set (mt ic r (n, s, cs))"
    and b: "st' = (n1, s1, cs1 @ [(k, take (n1 - n) s)])" by auto
  from 8(1) [OF a] obtain w new where w: "s = w @ s1" "n1 = n + length w" "w \<in> lang ic r"
    "cs1 = cs @ new" "captured ic r new"
    by (rule reachesE) auto
  have tk: "take (n1 - n) s = w" using w(1,2) by simp
  show ?case unfolding b
  proof (rule reachesI [where w = w and new = "new @ [(k, w)]"])
    show "captured ic (Grp k r) (new @ [(k, w)])" using w(5,3) by (rule captured_Grp)
  qed (use w tk in auto)
qed

text \<open>What a group holds after a match.\<close>

lemma grp_captured:
  assumes "captured ic r new" "binds k r"
  shows "\<exists>b. (k, b) \<in> set (groups r) \<and> grp k new \<in> lang ic b"
proof -
  from assms have "k \<in> fst ` set (rev new)" by (simp add: captured_def)
  then obtain t where t: "map_of (rev new) k = Some t"
    by (metis map_of_eq_None_iff not_Some_eq)
  then have "(k, t) \<in> set new" by (auto dest: map_of_SomeD)
  with assms(1) t show ?thesis by (auto simp: captured_def grp_def)
qed

lemma mt_grp:
  assumes "st' \<in> set (mt ic r (n, s, []))" "binds k r"
  shows "\<exists>b. (k, b) \<in> set (groups r) \<and> grp k (snd (snd st')) \<in> lang ic b"
proof -
  from mt_sound [OF assms(1)] obtain new where "snd (snd st') = new" "captured ic r new"
    by (rule reachesE) auto
  with grp_captured [OF _ assms(2)] show ?thesis by blast
qed

text \<open>The first match.\<close>

lemma rsearch_Some:
  "rsearch ic r n s = Some (i, si, st) \<Longrightarrow>
     n \<le> i \<and> i \<le> n + length s \<and> si = drop (i - n) s \<and> mt ic r (i, si, []) \<noteq> [] \<and>
     st = hd (mt ic r (i, si, [])) \<and> (\<forall>j < i - n. mt ic r (n + j, drop j s, []) = [])"
proof (induction s arbitrary: n)
  case Nil
  then show ?case by (auto split: list.splits)
next
  case (Cons x xs)
  show ?case
  proof (cases "mt ic r (n, x # xs, [])")
    case Nil
    with Cons.prems have "rsearch ic r (Suc n) xs = Some (i, si, st)" by simp
    from Cons.IH [OF this] have ih: "Suc n \<le> i" "i \<le> Suc n + length xs" "si = drop (i - Suc n) xs"
      "mt ic r (i, si, []) \<noteq> []" "st = hd (mt ic r (i, si, []))"
      "\<forall>j < i - Suc n. mt ic r (Suc n + j, drop j xs, []) = []" by auto
    have "mt ic r (n + j, drop j (x # xs), []) = []" if "j < i - n" for j
    proof (cases j)
      case 0
      with Nil show ?thesis by simp
    next
      case (Suc j')
      with that ih(6) show ?thesis by simp
    qed
    moreover have "drop (i - n) (x # xs) = drop (i - Suc n) xs"
      using ih(1) by (simp add: drop_Cons' )
    ultimately show ?thesis using ih by auto
  next
    case (Cons a list)
    with Cons.prems show ?thesis by auto
  qed
qed

lemma rsearch_None:
  "rsearch ic r n s = None \<Longrightarrow> j \<le> length s \<Longrightarrow> mt ic r (n + j, drop j s, []) = []"
proof (induction s arbitrary: n j)
  case Nil
  then show ?case by (auto split: list.splits)
next
  case (Cons x xs)
  from Cons.prems(1) have a: "mt ic r (n, x # xs, []) = []" and b: "rsearch ic r (Suc n) xs = None"
    by (auto split: list.splits)
  show ?case
  proof (cases j)
    case 0
    with a show ?thesis by simp
  next
    case (Suc j')
    with Cons.prems(2) Cons.IH [OF b, of j'] show ?thesis by simp
  qed
qed

text \<open>In every pattern of the scripts that has groups, each group lies on every path, so
  that \<open>match[k]\<close> is a text whenever the pattern matches.\<close>

lemma grp_defined:
  assumes "st' \<in> set (mt ic r (n, s, []))" "binds k r"
  shows "map_of (rev (snd (snd st'))) k \<noteq> None"
proof -
  from mt_sound [OF assms(1)] obtain new where "snd (snd st') = new" "captured ic r new"
    by (rule reachesE) auto
  with assms(2) have "k \<in> fst ` set (rev (snd (snd st')))" by (simp add: captured_def)
  then show ?thesis by (simp add: map_of_eq_None_iff)
qed

lemma patterns_bind:
  "binds 1 mixIdRe \<and> binds 1 rowRegex \<and> binds 2 rowRegex \<and> binds 1 listItemRegex \<and>
   binds 1 trackRegex \<and> binds 2 trackRegex \<and> binds 1 h1Regex \<and> binds 1 titleTagRegex \<and>
   binds 1 mixTitleRegex \<and> binds 1 submitDateRegex \<and> binds 1 submittedRegex \<and>
   binds 1 formatRegex \<and> binds 1 forRegex \<and> binds 1 dedicatedRegex"
  by (simp add: mixIdRe_def rowRegex_def listItemRegex_def trackRegex_def h1Regex_def
      titleTagRegex_def mixTitleRegex_def submitDateRegex_def submittedRegex_def formatRegex_def
      forRegex_def dedicatedRegex_def)

text \<open>The three patterns of the \<open>exec\<close> loops never match the empty text: each round of
  such a loop moves on in the page.\<close>

lemma mt_consumes:
  assumes "st' \<in> set (mt ic r st)" "[] \<notin> lang ic r"
  shows "length (fst (snd st')) < length (fst (snd st))"
proof -
  from mt_sound [OF assms(1)] obtain w where "fst (snd st) = w @ fst (snd st')" "w \<in> lang ic r"
    by (rule reachesE)
  with assms(2) show ?thesis by (cases w) auto
qed

lemma exec_patterns_consume:
  "[] \<notin> lang ic mixIdRe \<and> [] \<notin> lang ic rowRegex \<and> [] \<notin> lang ic listItemRegex"
  by (simp add: mixIdRe_def rowRegex_def listItemRegex_def)

section \<open>The orchestrator: discovery\<close>

lemma remdups_later: "x \<in> set ys \<Longrightarrow> remdups (xs @ x # ys) = remdups (xs @ ys)"
  by (induction xs) auto

lemma pushNew_first_seen:
  "distinct acc \<Longrightarrow> pushNew acc ms = rev (remdups (rev (acc @ ms)))"
proof (induction ms arbitrary: acc)
  case Nil
  then show ?case by (simp add: distinct_remdups_id)
next
  case (Cons m ms)
  show ?case
  proof (cases "m \<in> set acc")
    case True
    then have "remdups (rev ms @ m # rev acc) = remdups (rev ms @ rev acc)"
      by (intro remdups_later) simp
    with True Cons show ?thesis by simp
  next
    case False
    with Cons.prems have "distinct (acc @ [m])" by simp
    from Cons.IH [OF this] False show ?thesis by simp
  qed
qed

lemma collectIds_step:
  "collectIds world (page # pages) (t, acc) =
     collectIds world pages (Suc t, acc @ pageIds world t page)"
  by (simp add: pageIds_def split: sum.splits)

lemma collectIds_concat:
  "collectIds world pages (t, acc) =
     (t + length pages,
      acc @ concat (map (\<lambda>(k, page). pageIds world k page) (zip [t..<t + length pages] pages)))"
proof (induction pages arbitrary: t acc)
  case Nil
  then show ?case by simp
next
  case (Cons page pages)
  have "[t..<t + Suc (length pages)] = t # [Suc t..<t + Suc (length pages)]"
    by (subst upt_rec) simp
  then have upt: "[t..<t + length (page # pages)] = t # [Suc t..<Suc t + length pages]"
    by simp
  show ?case
    unfolding collectIds_step Cons.IH upt by simp
qed

text \<open>
  Claim C1 says that the ids collected over all list pages hold no id twice. Within one
  page this is so: \<open>extractMixIds\<close> returns the ids its pattern finds in the page, each
  once, in the order in which they are first seen. Step 1 appends the list of every page
  it could fetch, as it is, so the collection is the concatenation of the lists of the
  pages, in the order of the pages (C1, as amended).
\<close>

theorem extractMixIds_first_seen:
  "distinct (extractMixIds html) \<and>
   extractMixIds html = rev (remdups (rev (map (grp 1) (execAll False mixIdRe html)))) \<and>
   snd (collectIds world pages (t, acc)) =
     acc @ concat (map (\<lambda>(k, page). pageIds world k page) (zip [t..<t + length pages] pages))"
proof -
  have eq: "extractMixIds html = rev (remdups (rev (map (grp 1) (execAll False mixIdRe html))))"
    unfolding extractMixIds_def using pushNew_first_seen [of "[]"] by simp
  then have "distinct (extractMixIds html)" by simp
  with eq show ?thesis by (simp add: collectIds_concat)
qed

text \<open>C1 as stated fails: when two list pages name the mix 7, the collection holds it
  twice.\<close>

theorem collectIds_duplicates:
  "snd (collectIds twoPages [1..<45] (0, [])) = [''7'', ''7'']"
  by code_simp

section \<open>The orchestrator: one mix after the other\<close>

lemma demoPage_data: "extractMixData demoPage ''1'' = Inr demoMix"
  by code_simp

lemma created_errors_processMix:
  "created (processMix world st mixId) + errors (processMix world st mixId)
     = Suc (created st + errors st)"
  by (auto simp: processMix_def persist_def createMixFile_def Let_def split: sum.splits)

lemma created_errors_processAll:
  "created (processAll world st mixIds) + errors (processAll world st mixIds)
     = created st + errors st + length mixIds"
  by (induction mixIds arbitrary: st) (simp_all add: created_errors_processMix)

lemma processAll_append:
  "processAll world st (xs @ ys) = processAll world (processAll world st xs) ys"
  by (induction xs arbitrary: st) simp_all

text \<open>The whole run: every id that step 1 has collected is counted once by step 2.\<close>

lemma importMixes_counts:
  "created (importMixes world disk) + errors (importMixes world disk) =
     length (snd (collectIds world [1..<45] (0, [])))"
  by (simp add: importMixes_def created_errors_processAll split: prod.splits)

lemma showNat_404: "showNat 404 = ''404''"
  by code_simp

text \<open>
  Claim C8: a response with a status outside 200 to 299 makes \<open>fetchPage\<close> throw an error
  that names the URL and the status. When the fetch of a mix fails, whatever the error,
  step 2 counts one more error, writes nothing and goes on with the ids that follow; and
  at the end of step 2 every id has been counted once, as created or as an error, so no
  id stops the run.
\<close>

theorem fetch_failure_counted:
  "(network world t url = Response status body \<and> \<not> (200 \<le> status \<and> status \<le> 299) \<longrightarrow>
      fetchPage (network world) t url =
        Inl (Error (''Failed to fetch '' @ url @ '': '' @ showNat status))) \<and>
   (fetchPage (network world) (clock (processAll world st before))
        (BASE_URL @ ''/mix/'' @ mixId) = Inl err \<longrightarrow>
      processAll world st (before @ mixId # after) =
        processAll world
          ((processAll world st before)
             \<lparr>clock := Suc (clock (processAll world st before)),
              errors := Suc (errors (processAll world st before))\<rparr>) after) \<and>
   created (processAll world st mixIds) + errors (processAll world st mixIds) =
     created st + errors st + length mixIds"
  by (simp add: fetchPage_def showNat_404 processMix_def Let_def processAll_append
      created_errors_processAll)

text \<open>The site that answers 404 for the mix 404: the run counts the error and goes on
  with the mix 1.\<close>

theorem fetch_failure_counted_witness:
  "fetchPage (network demoWorld) 0 (BASE_URL @ ''/mix/404'') =
     Inl (Error (''Failed to fetch https://www.artofthemix.org/mix/404: 404'')) \<and>
   processAll demoWorld freshRun [''404'', ''1''] =
     processAll demoWorld (freshRun\<lparr>clock := 1, errors := 1\<rparr>) [''1''] \<and>
   created (processAll demoWorld freshRun [''404'', ''1''])
     + errors (processAll demoWorld freshRun [''404'', ''1'']) = 2"
proof -
  note inst = fetch_failure_counted [where world = demoWorld and t = 0
      and url = "BASE_URL @ ''/mix/404''" and status = 404 and body = "[]"
      and st = freshRun and before = "[]" and mixId = "''404''" and after = "[''1'']"
      and mixIds = "[''404'', ''1'']"
      and err = "Error ''Failed to fetch https://www.artofthemix.org/mix/404: 404''"]
  have net: "network demoWorld 0 (BASE_URL @ ''/mix/404'') = Response 404 []"
    by (simp add: demoWorld_def)
  from inst [THEN conjunct1] net
  have f: "fetchPage (network demoWorld) 0 (BASE_URL @ ''/mix/404'') =
      Inl (Error ''Failed to fetch https://www.artofthemix.org/mix/404: 404'')"
    by (simp add: showNat_404 BASE_URL_def)
  then have "fetchPage (network demoWorld) (clock (processAll demoWorld freshRun []))
      (BASE_URL @ ''/mix/'' @ ''404'') =
      Inl (Error ''Failed to fetch https://www.artofthemix.org/mix/404: 404'')"
    by (simp add: freshRun_def)
  with inst [THEN conjunct2, THEN conjunct1]
  have g: "processAll demoWorld freshRun [''404'', ''1''] =
     processAll demoWorld (freshRun\<lparr>clock := 1, errors := 1\<rparr>) [''1'']"
    by (simp add: freshRun_def)
  from inst [THEN conjunct2, THEN conjunct2]
  have h: "created (processAll demoWorld freshRun [''404'', ''1''])
     + errors (processAll demoWorld freshRun [''404'', ''1'']) = 2"
    by (simp add: freshRun_def)
  from f g h show ?thesis by blast
qed

text \<open>
  Claim C5 says that a record is persisted if and only if it has a title and at least one
  track. The test of line 269 decides that such a record is handed to \<open>createMixFile\<close>;
  when \<open>writeFileSync\<close> throws there, the \<open>catch\<close> of the loop counts an error and the
  record is not written. What holds (C5, as amended): a record is written, and counted as
  created, if and only if it has a title and at least one track and the file system
  accepts the write; otherwise nothing is written and one error is counted. So a record
  with an empty title or no track is never written, and counts as an error; and a record
  with a title and a track is written whenever the write succeeds. Step 2 applies this
  to every record it extracts.
\<close>

theorem persist_gate:
  "persist world st mixData =
     (if data_title mixData \<noteq> [] \<and> 1 \<le> length (data_tracks mixData) \<and>
         writable world (clock st) (fileName mixData)
      then st\<lparr>files := (files st)(fileName mixData \<mapsto> jsonData mixData),
              created := Suc (created st)\<rparr>
      else st\<lparr>errors := Suc (errors st)\<rparr>) \<and>
   (created (persist world st mixData) = Suc (created st)) =
     (data_title mixData \<noteq> [] \<and> 1 \<le> length (data_tracks mixData) \<and>
      writable world (clock st) (fileName mixData)) \<and>
   (errors (persist world st mixData) = Suc (errors st)) =
     (\<not> (data_title mixData \<noteq> [] \<and> 1 \<le> length (data_tracks mixData) \<and>
         writable world (clock st) (fileName mixData))) \<and>
   (data_title mixData \<noteq> [] \<and> 1 \<le> length (data_tracks mixData) \<longrightarrow>
      persist world st mixData =
        (if writable world (clock st) (fileName mixData)
         then st\<lparr>files := (files st)(fileName mixData \<mapsto> jsonData mixData),
                 created := Suc (created st)\<rparr>
         else st\<lparr>errors := Suc (errors st)\<rparr>)) \<and>
   (data_title mixData = [] \<or> length (data_tracks mixData) = 0 \<longrightarrow>
      persist world st mixData = st\<lparr>errors := Suc (errors st)\<rparr> \<and>
      files (persist world st mixData) = files st \<and>
      created (persist world st mixData) = created st) \<and>
   (fetchPage (network world) (clock st) (BASE_URL @ ''/mix/'' @ mixId) = Inr html \<and>
    extractMixData html mixId = Inr mixData \<longrightarrow>
      processMix world st mixId = persist world (st\<lparr>clock := Suc (clock st)\<rparr>) mixData)"
  by (cases "data_tracks mixData")
    (auto simp: persist_def createMixFile_def processMix_def Let_def)

theorem persist_gate_witness:
  "persist demoWorld freshRun demoMix =
     freshRun\<lparr>files := (files freshRun)(fileName demoMix \<mapsto> jsonData demoMix), created := 1\<rparr> \<and>
   persist demoWorld freshRun (demoMix\<lparr>data_tracks := []\<rparr>) = freshRun\<lparr>errors := 1\<rparr> \<and>
   persist demoWorld freshRun (demoMix\<lparr>data_title := []\<rparr>) = freshRun\<lparr>errors := 1\<rparr> \<and>
   processMix demoWorld freshRun ''1'' = persist demoWorld (freshRun\<lparr>clock := 1\<rparr>) demoMix"
proof -
  have f: "fetchPage (network demoWorld) (clock freshRun) (BASE_URL @ ''/mix/'' @ ''1'') = Inr demoPage"
    by (simp add: fetchPage_def demoWorld_def BASE_URL_def)
  show ?thesis
    using persist_gate [where mixData = demoMix and world = demoWorld and st = freshRun
        and mixId = "''1''" and html = demoPage]
      persist_gate [where mixData = "demoMix\<lparr>data_tracks := []\<rparr>" and world = demoWorld
        and st = freshRun]
      persist_gate [where mixData = "demoMix\<lparr>data_title := []\<rparr>" and world = demoWorld
        and st = freshRun]
      f demoPage_data
    by (simp add: demoMix_def demoWorld_def freshRun_def)
qed

text \<open>C5 as stated fails: the record of the example page has a title and a track, and on
  a file system that accepts no write it is not written; the run counts an error.\<close>

theorem persist_unwritten:
  "data_title demoMix \<noteq> [] \<and> 1 \<le> length (data_tracks demoMix) \<and>
   persist fullDisk freshRun demoMix = freshRun\<lparr>errors := 1\<rparr> \<and>
   files (persist fullDisk freshRun demoMix) (fileName demoMix) = None \<and>
   processMix fullDisk freshRun ''1'' = freshRun\<lparr>clock := 1, errors := 1\<rparr>"
proof -
  have f: "fetchPage (network fullDisk) (clock freshRun) (BASE_URL @ ''/mix/'' @ ''1'') = Inr demoPage"
    by (simp add: fetchPage_def fullDisk_def demoWorld_def BASE_URL_def)
  have p: "persist fullDisk st demoMix = st\<lparr>errors := Suc (errors st)\<rparr>" for st :: "int run"
    by (simp add: persist_def createMixFile_def fullDisk_def demoMix_def)
  from f demoPage_data have "processMix fullDisk freshRun ''1'' = freshRun\<lparr>clock := 1, errors := 1\<rparr>"
    by (simp add: processMix_def Let_def p) (simp add: freshRun_def)
  moreover have "persist fullDisk freshRun demoMix = freshRun\<lparr>errors := 1\<rparr>"
    by (simp add: p) (simp add: freshRun_def)
  ultimately show ?thesis by (simp add: demoMix_def) (simp add: freshRun_def)
qed

section \<open>The slug\<close>

lemma slugify_bangs: "slugify ''!!!'' = []"
  by code_simp

text \<open>
  Claim C2 says that a slug never ends in a hyphen. \<open>slugify\<close> trims the hyphens and then
  cuts the text at 80 code units, and the cut can end on a hyphen: a title of 79 letters
  \<open>a\<close>, a space and a \<open>b\<close> has the slug of 79 letters \<open>a\<close> and a hyphen.
\<close>

theorem slugify_trailing_hyphen:
  "slugify (replicate 79 (CHR ''a'') @ '' b'') = replicate 79 (CHR ''a'') @ ''-''"
  by code_simp

text \<open>
  Claim C10: there is a title that is not empty and has no ASCII letter or digit, whose slug
  is empty; a record with this title gets the file name \<open>.json\<close>, and \<open>createMixFile\<close>
  writes that file whenever the file system accepts the write.
\<close>

theorem slugify_empty_slug:
  "\<exists>t. t \<noteq> [] \<and> \<not> list_ex asciiAlnum t \<and> slugify t = [] \<and>
        fileName (mixData\<lparr>data_title := t\<rparr>) = ''.json'' \<and>
        createMixFile world st (mixData\<lparr>data_title := t\<rparr>) =
          (if writable world (clock st) ''.json''
           then Inr (st\<lparr>files := (files st)(''.json'' \<mapsto> jsonData (mixData\<lparr>data_title := t\<rparr>))\<rparr>)
           else Inl (Error ''writeFileSync failed''))"
proof (intro exI [of _ "''!!!''"] conjI)
  show "\<not> list_ex asciiAlnum ''!!!''" by code_simp
qed (simp_all add: slugify_bangs fileName_def createMixFile_def)

section \<open>The date\<close>

lemma isDigit_not_slash: "isDigit c \<Longrightarrow> c \<noteq> CHR ''/''"
  by (auto simp: isDigit_def charCode_def)

lemma upperChar_eq_slash: "upperChar x = CHR ''/'' \<Longrightarrow> x = CHR ''/''"
proof (rule ccontr)
  assume a: "upperChar x = CHR ''/''" and b: "x \<noteq> CHR ''/''"
  let ?n = "charCode x"
  from a b have r: "(97 \<le> ?n \<and> ?n \<le> 122) \<or> (224 \<le> ?n \<and> ?n \<le> 254 \<and> ?n \<noteq> 247)"
    and c: "char_of (?n - 32) = CHR ''/''"
    by (auto simp: upperChar_def Let_def split: if_splits)
  from c have "(of_char (char_of (?n - 32)) :: int) = of_char (CHR ''/'')" by simp
  then have "(?n - 32) mod 256 = 47" by simp
  with r show False by auto
qed

lemma atomMatch_slash: "atomMatch ic (Ch (CHR ''/'')) x \<Longrightarrow> x = CHR ''/''"
proof (cases ic)
  case True
  assume "atomMatch ic (Ch (CHR ''/'')) x"
  with True have "upperChar x = upperChar (CHR ''/'')" by simp
  moreover have "upperChar (CHR ''/'') = CHR ''/''" by (simp add: upperChar_def charCode_def)
  ultimately show ?thesis by (simp add: upperChar_eq_slash)
next
  case False
  assume "atomMatch ic (Ch (CHR ''/'')) x"
  with False show ?thesis by simp
qed

lemma lang_digit: "w \<in> lang ic digit \<longleftrightarrow> (\<exists>x. w = [x] \<and> isDigit x)"
  by (auto simp: digit_def)

lemma lang_slash: "w \<in> lang ic (lits ''/'') \<Longrightarrow> w = ''/''"
  by (auto simp del: atomMatch.simps dest: atomMatch_slash)

lemma lang_rep12_digit:
  "w \<in> lang ic (rep12 digit) \<Longrightarrow> list_all isDigit w \<and> (length w = 1 \<or> length w = 2)"
  by (auto simp: rep12_def ropt_def lang_digit)

lemma lang_rep4_digit:
  "w \<in> lang ic (rep4 digit) \<Longrightarrow> list_all isDigit w \<and> length w = 4"
  by (auto simp: rep4_def lang_digit)

lemma lang_SeqE:
  assumes "w \<in> lang ic (Seq r1 r2)"
  obtains u v where "w = u @ v" "u \<in> lang ic r1" "v \<in> lang ic r2"
  using assms by auto

lemma lang_dateRegex:
  assumes "w \<in> lang ic dateRegex"
  obtains m d y where "w = m @ ''/'' @ d @ ''/'' @ y"
    "list_all isDigit m" "length m = 1 \<or> length m = 2"
    "list_all isDigit d" "length d = 1 \<or> length d = 2"
    "list_all isDigit y" "length y = 4"
proof -
  from assms have "w \<in> lang ic (Seq (rep12 digit) (Seq (lits ''/'') (Seq (rep12 digit)
      (Seq (lits ''/'') (Seq (rep4 digit) Eps)))))"
    by (simp only: dateRegex_def seqs.simps)
  then obtain m t1 where 1: "w = m @ t1" "m \<in> lang ic (rep12 digit)"
    "t1 \<in> lang ic (Seq (lits ''/'') (Seq (rep12 digit) (Seq (lits ''/'') (Seq (rep4 digit) Eps))))"
    by (rule lang_SeqE)
  from 1(3) obtain s1 t2 where 2: "t1 = s1 @ t2" "s1 \<in> lang ic (lits ''/'')"
    "t2 \<in> lang ic (Seq (rep12 digit) (Seq (lits ''/'') (Seq (rep4 digit) Eps)))"
    by (rule lang_SeqE)
  from 2(3) obtain d t3 where 3: "t2 = d @ t3" "d \<in> lang ic (rep12 digit)"
    "t3 \<in> lang ic (Seq (lits ''/'') (Seq (rep4 digit) Eps))"
    by (rule lang_SeqE)
  from 3(3) obtain s2 t4 where 4: "t3 = s2 @ t4" "s2 \<in> lang ic (lits ''/'')"
    "t4 \<in> lang ic (Seq (rep4 digit) Eps)"
    by (rule lang_SeqE)
  from 4(3) obtain y t5 where 5: "t4 = y @ t5" "y \<in> lang ic (rep4 digit)" "t5 \<in> lang ic Eps"
    by (rule lang_SeqE)
  from 5 have "t4 = y" by simp
  with 1 2 3 4 have w: "w = m @ s1 @ d @ s2 @ y" by simp
  note m = 1(2) and s1 = 2(2) and d = 3(2) and s2 = 4(2) and y = 5(2)
  have "s1 = ''/''" "s2 = ''/''" using s1 s2 by (simp_all only: lang_slash)
  with w m d y that show thesis
    by (metis lang_rep12_digit lang_rep4_digit)
qed

lemma splitOn_no_sep: "c \<notin> set s \<Longrightarrow> splitOn c s = [s]"
  by (induction s) auto

lemma splitOn_sep: "c \<notin> set s \<Longrightarrow> splitOn c (s @ c # t) = s # splitOn c t"
  by (induction s) auto

lemma isDigit_zero: "isDigit (CHR ''0'')"
  by (simp add: isDigit_def charCode_def)

lemma padStart2_digits:
  "list_all isDigit m \<Longrightarrow> length m = 1 \<or> length m = 2 \<Longrightarrow>
     list_all isDigit (padStart2 m) \<and> length (padStart2 m) = 2"
  by (auto simp: padStart2_def isDigit_zero)

lemma parseDate_lang:
  assumes "w \<in> lang ic dateRegex"
  shows "\<exists>s. parseDate w = Inr s \<and> canonicalDate s"
proof -
  from assms obtain m d y where w: "w = m @ ''/'' @ d @ ''/'' @ y"
    and m: "list_all isDigit m" "length m = 1 \<or> length m = 2"
    and d: "list_all isDigit d" "length d = 1 \<or> length d = 2"
    and y: "list_all isDigit y" "length y = 4"
    by (rule lang_dateRegex)
  from m(1) d(1) y(1) have ns: "CHR ''/'' \<notin> set m" "CHR ''/'' \<notin> set d" "CHR ''/'' \<notin> set y"
    by (auto simp: list_all_iff dest: isDigit_not_slash)
  have "splitOn (CHR ''/'') w = [m, d, y]"
    unfolding w using ns by (simp add: splitOn_sep splitOn_no_sep)
  then have p: "parseDate w = Inr (y @ ''-'' @ padStart2 m @ ''-'' @ padStart2 d)"
    by (simp add: parseDate_def)
  from padStart2_digits [OF m] padStart2_digits [OF d] y
  have "canonicalDate (y @ ''-'' @ padStart2 m @ ''-'' @ padStart2 d)"
    by (simp add: canonicalDate_def nth_append)
  with p show ?thesis by blast
qed

lemma rmatch_Some:
  assumes "rmatch ic r s = Some (i, cs)"
  obtains st where "st \<in> set (mt ic r (i, drop i s, []))" "cs = snd (snd st)" "i \<le> length s"
    "\<forall>j < i. mt ic r (j, drop j s, []) = []"
proof -
  from assms obtain si e rest where a: "rsearch ic r 0 s = Some (i, si, (e, rest, cs))"
    by (auto simp: rmatch_def split: option.splits)
  from rsearch_Some [OF a] have "si = drop i s" "mt ic r (i, si, []) \<noteq> []"
    "(e, rest, cs) = hd (mt ic r (i, si, []))" "i \<le> length s"
    "\<forall>j < i. mt ic r (j, drop j s, []) = []" by auto
  then show thesis using that [of "(e, rest, cs)"] by (metis hd_in_set snd_conv)
qed

lemma groups_lits [simp]: "groups (lits s) = []"
  by (induction s) auto

lemma binds_lits [simp]: "\<not> binds k (lits s)"
  by (induction s) auto

lemma groups_dateRegex: "groups dateRegex = []"
  by (simp add: dateRegex_def rep12_def rep4_def ropt_def digit_def)

lemma groups_submitDateRegex: "groups submitDateRegex = [(1, dateRegex)]"
  by (simp add: submitDateRegex_def groups_dateRegex ws_def)

lemma groups_submittedRegex: "groups submittedRegex = [(1, dateRegex)]"
  by (simp add: submittedRegex_def groups_dateRegex)

lemma extractDate_total:
  "\<exists>date. extractDate html = Inr date \<and>
     (if orElse (rmatch True submitDateRegex html) (rmatch True submittedRegex html) = None
      then date = [] else canonicalDate date)"
proof (cases "orElse (rmatch True submitDateRegex html) (rmatch True submittedRegex html)")
  case None
  then show ?thesis by (simp add: extractDate_def)
next
  case (Some m)
  obtain i cs where m: "m = (i, cs)" by (cases m)
  from Some m consider "rmatch True submitDateRegex html = Some (i, cs)"
    | "rmatch True submittedRegex html = Some (i, cs)"
    by (auto simp: orElse_def split: option.splits)
  then have "grp 1 cs \<in> lang True dateRegex"
  proof cases
    case 1
    then obtain st where st: "st \<in> set (mt True submitDateRegex (i, drop i html, []))"
      "cs = snd (snd st)" by (rule rmatch_Some)
    have "binds 1 submitDateRegex" by (simp add: submitDateRegex_def)
    from mt_grp [OF st(1) this] st(2) show ?thesis by (simp add: groups_submitDateRegex)
  next
    case 2
    then obtain st where st: "st \<in> set (mt True submittedRegex (i, drop i html, []))"
      "cs = snd (snd st)" by (rule rmatch_Some)
    have "binds 1 submittedRegex" by (simp add: submittedRegex_def)
    from mt_grp [OF st(1) this] st(2) show ?thesis by (simp add: groups_submittedRegex)
  qed
  from parseDate_lang [OF this] Some m show ?thesis by (simp add: extractDate_def)
qed

lemma extractMixData_date:
  "\<exists>mixData. extractMixData html mixId = Inr mixData \<and>
     (if orElse (rmatch True submitDateRegex html) (rmatch True submittedRegex html) = None
      then data_date mixData = [] else canonicalDate (data_date mixData))"
proof -
  from extractDate_total [of html] obtain date where "extractDate html = Inr date"
    "if orElse (rmatch True submitDateRegex html) (rmatch True submittedRegex html) = None
     then date = [] else canonicalDate date" by blast
  then show ?thesis by (simp add: extractMixData_def Let_def)
qed

lemma jsonData_date: "getProp (jsonData mixData) ''date'' = Inr (Some (JStr (data_date mixData)))"
  by (simp add: jsonData_def)

text \<open>
  Claim C7 says that the date of the written record is in the canonical form or is absent
  from the record. The record always has the property \<open>date\<close>. Its value is in the
  canonical form when one of the two labelled date patterns matches the page, and it is
  the empty text when none does (C7, as amended). The two dates of the specification are
  parsed as it says.
\<close>

theorem persisted_date:
  "(\<exists>mixData. extractMixData html mixId = Inr mixData \<and>
      getProp (jsonData mixData) ''date'' = Inr (Some (JStr (data_date mixData))) \<and>
      (if orElse (rmatch True submitDateRegex html) (rmatch True submittedRegex html) = None
       then data_date mixData = [] else canonicalDate (data_date mixData))) \<and>
   parseDate ''7/4/1999'' = Inr ''1999-07-04'' \<and>
   parseDate ''12/31/2003'' = Inr ''2003-12-31''"
proof -
  have "parseDate ''7/4/1999'' = Inr ''1999-07-04''" "parseDate ''12/31/2003'' = Inr ''2003-12-31''"
    by code_simp+
  with extractMixData_date [of html mixId] show ?thesis by (auto simp: jsonData_date)
qed

lemma noDatePage_data: "extractMixData noDatePage ''9'' = Inr noDateMix"
  by code_simp

text \<open>C7 as stated fails: for a page with no date the written record has the property
  \<open>date\<close>, and its value, the empty text, is not a date in the canonical form.\<close>

theorem persisted_date_empty:
  "extractMixData noDatePage ''9'' = Inr noDateMix \<and>
   getProp (jsonData noDateMix :: int json) ''date'' = Inr (Some (JStr [])) \<and>
   \<not> canonicalDate []"
  by (simp add: noDatePage_data jsonData_date canonicalDate_def) (simp add: noDateMix_def)

section \<open>The two sides of a cassette\<close>

lemma test_rmatch: "test ic r s \<Longrightarrow> \<exists>i cs. rmatch ic r s = Some (i, cs)"
  by (auto simp: test_def)

text \<open>
  Claim C4: when the page has a \<open>Side A\<close> and a \<open>Side B\<close> marker, \<open>extractMixData\<close>
  returns a record whose format is \<open>cassette\<close>; with \<open>i\<close> the first position at which
  the \<open>Side B\<close> pattern matches, side A holds the tracks of the text before \<open>i\<close>, side B
  the tracks of the text from \<open>i\<close> on, and the tracks are those of side A followed by
  those of side B, so that their number is the sum of the two.
\<close>

theorem cassette_sides:
  assumes "test True sideARegex html" and "test True sideBRegex html"
  shows "\<exists>mixData i. extractMixData html mixId = Inr mixData \<and>
      data_format mixData = ''cassette'' \<and>
      search True sideBRegex html = int i \<and> i \<le> length html \<and>
      mt True sideBRegex (i, drop i html, []) \<noteq> [] \<and>
      (\<forall>j<i. mt True sideBRegex (j, drop j html, []) = []) \<and>
      data_sideA mixData = Some (extractTracksFromHtml (take i html)) \<and>
      data_sideB mixData = Some (extractTracksFromHtml (drop i html)) \<and>
      data_tracks mixData =
        extractTracksFromHtml (take i html) @ extractTracksFromHtml (drop i html) \<and>
      length (data_tracks mixData) =
        length (extractTracksFromHtml (take i html)) + length (extractTracksFromHtml (drop i html))"
proof -
  from test_rmatch [OF assms(2)] obtain i cs where m: "rmatch True sideBRegex html = Some (i, cs)"
    by blast
  then obtain st where st: "st \<in> set (mt True sideBRegex (i, drop i html, []))" "i \<le> length html"
    "\<forall>j < i. mt True sideBRegex (j, drop j html, []) = []" by (rule rmatch_Some)
  from m have s: "search True sideBRegex html = int i" by (simp add: search_def)
  have sub: "substring html 0 (int i) = take i html" "substringFrom html (int i) = drop i html"
    by (simp_all add: substring_def substringFrom_def Let_def)
  from extractDate_total [of html] obtain date where d: "extractDate html = Inr date" by blast
  let ?a = "extractTracksFromHtml (take i html)" and ?b = "extractTracksFromHtml (drop i html)"
  have "extractMixData html mixId =
     Inr \<lparr>data_id = mixId, data_title = extractTitle (normalizeHtml html), data_date = date,
          data_format = ''cassette'', data_notes = extractNotes html, data_tracks = ?a @ ?b,
          data_sideA = Some ?a, data_sideB = Some ?b\<rparr>"
    using assms d by (simp add: extractMixData_def Let_def s sub)
  with st s show ?thesis by auto
qed

lemma sidesPage_data: "extractMixData sidesPage ''1'' = Inr sidesMix"
  by code_simp

theorem cassette_sides_witness:
  "test True sideARegex sidesPage \<and> test True sideBRegex sidesPage \<and>
   extractMixData sidesPage ''1'' = Inr sidesMix \<and>
   (\<exists>mixData i. extractMixData sidesPage ''1'' = Inr mixData \<and>
      data_format mixData = ''cassette'' \<and>
      search True sideBRegex sidesPage = int i \<and>
      data_sideA mixData = Some (extractTracksFromHtml (take i sidesPage)) \<and>
      data_sideB mixData = Some (extractTracksFromHtml (drop i sidesPage)) \<and>
      data_tracks mixData =
        extractTracksFromHtml (take i sidesPage) @ extractTracksFromHtml (drop i sidesPage))"
proof -
  have a: "test True sideARegex sidesPage" by code_simp
  have b: "test True sideBRegex sidesPage" by code_simp
  from cassette_sides [OF a b, of "''1''"] a b sidesPage_data show ?thesis by blast
qed

section \<open>The tracks\<close>

lemma charCode_char_of: "0 \<le> n \<Longrightarrow> n < 256 \<Longrightarrow> charCode (char_of n) = n"
  by (simp add: charCode_def)

lemma lowerChar_cases:
  "lowerChar x = (if upperCase x then char_of (charCode x + 32) else x)"
  by (simp add: lowerChar_def upperCase_def Let_def)

lemma lowerChar_idem: "lowerChar (lowerChar c) = lowerChar c"
proof (cases "upperCase c")
  case True
  then have l: "lowerChar c = char_of (charCode c + 32)" by (simp add: lowerChar_cases)
  from True have "charCode (char_of (charCode c + 32)) = charCode c + 32"
    by (intro charCode_char_of) (auto simp: upperCase_def)
  with l have "charCode (lowerChar c) = charCode c + 32" by simp
  with True have "\<not> upperCase (lowerChar c)" by (auto simp: upperCase_def)
  then show ?thesis by (simp add: lowerChar_cases [of "lowerChar c"])
next
  case False
  then show ?thesis by (simp add: lowerChar_cases)
qed

lemma toLowerCase_idem: "toLowerCase (toLowerCase s) = toLowerCase s"
  by (simp add: toLowerCase_def lowerChar_idem)

lemma toLowerCase_Nil_iff: "toLowerCase s = [] \<longleftrightarrow> s = []"
  by (simp add: toLowerCase_def)

lemma trim_decomp: "\<exists>zs. dropWhile isSpace s = trim s @ zs \<and> list_all isSpace zs"
proof -
  let ?t = "dropWhile isSpace s"
  have "rev ?t = takeWhile isSpace (rev ?t) @ dropWhile isSpace (rev ?t)" by simp
  then have "?t = rev (dropWhile isSpace (rev ?t)) @ rev (takeWhile isSpace (rev ?t))"
    by (metis rev_append rev_rev_ident)
  moreover have "list_all isSpace (rev (takeWhile isSpace (rev ?t)))"
    by (simp add: list_all_iff) (metis set_takeWhileD)
  ultimately show ?thesis unfolding trim_def by blast
qed

lemma trim_hd: "trim s \<noteq> [] \<Longrightarrow> \<not> isSpace (hd (trim s))"
proof -
  assume a: "trim s \<noteq> []"
  from trim_decomp [of s] obtain zs where z: "dropWhile isSpace s = trim s @ zs" by blast
  with a have "dropWhile isSpace s \<noteq> []" by simp
  then have "\<not> isSpace (hd (dropWhile isSpace s))" by (rule hd_dropWhile)
  with z a show ?thesis by simp
qed

lemma trim_keeps: "x \<in> set w \<Longrightarrow> \<not> isSpace x \<Longrightarrow> trim w \<noteq> []"
proof
  assume x: "x \<in> set w" "\<not> isSpace x" and e: "trim w = []"
  from trim_decomp [of w] e obtain zs where "dropWhile isSpace w = zs" "list_all isSpace zs"
    by auto
  then have "list_all isSpace (dropWhile isSpace w)" by simp
  moreover have "w = takeWhile isSpace w @ dropWhile isSpace w" by simp
  ultimately have "list_all isSpace w"
    by (metis list_all_append list_all_iff set_takeWhileD)
  with x show False by (simp add: list_all_iff)
qed

lemma grp_other: "k \<notin> fst ` set new \<Longrightarrow> grp k (cs @ new) = grp k cs"
proof -
  assume "k \<notin> fst ` set new"
  then have "map_of (rev new) k = None" by (simp add: map_of_eq_None_iff)
  then show ?thesis by (simp add: grp_def map_add_def)
qed

lemma grp_last: "grp k (cs @ [(k, w)]) = w"
  by (simp add: grp_def)

lemma captured_keys: "captured ic r new \<Longrightarrow> fst ` set new \<subseteq> fst ` set (groups r)"
  unfolding captured_def by force

lemma lang_rplus_nonempty:
  "w \<in> lang ic (rplus g (Cls neg as)) \<Longrightarrow> w \<noteq> []"
  by (auto simp: rplus_def)

lemma trackRegex_split: "trackRegex = Seq Bol (Seq (Grp 1 (rplus False dot)) trackRest)"
  by (simp add: trackRegex_def trackRest_def)

lemma groups_trackRest: "fst ` set (groups trackRest) = {2}"
  by (simp add: trackRest_def ws_def ropt_def rplus_def dot_def)

lemma groups_rplus_dot: "groups (rplus False dot) = []"
  by (simp add: rplus_def dot_def)

lemma trackRegex_artist:
  assumes "rmatch False trackRegex item = Some (i, cs)"
  shows "\<exists>w rest. item = w @ rest \<and> w \<noteq> [] \<and> grp 1 cs = w"
proof -
  from assms obtain st where st: "st \<in> set (mt False trackRegex (i, drop i item, []))"
    and cs: "cs = snd (snd st)" by (rule rmatch_Some)
  have bol: "mt False Bol (i, drop i item, []) = (if i = 0 then [(i, drop i item, [])] else [])"
    by simp
  from st have "st \<in> set (concat (map (mt False (Seq (Grp 1 (rplus False dot)) trackRest))
      (mt False Bol (i, drop i item, []))))"
    by (simp only: trackRegex_split mt.simps(5))
  then have i: "i = 0"
    and st': "st \<in> set (mt False (Seq (Grp 1 (rplus False dot)) trackRest) (0, item, []))"
    by (auto simp del: mt.simps simp add: bol split: if_splits)
  from st' have "st \<in> set (concat (map (mt False trackRest)
      (mt False (Grp 1 (rplus False dot)) (0, item, []))))"
    by (simp only: mt.simps)
  then obtain st1 where 1: "st1 \<in> set (mt False (Grp 1 (rplus False dot)) (0, item, []))"
    and 2: "st \<in> set (mt False trackRest st1)" by (auto simp del: mt.simps)
  from 1 obtain n1 s1 cs1 where a: "(n1, s1, cs1) \<in> set (mt False (rplus False dot) (0, item, []))"
    and b: "st1 = (n1, s1, cs1 @ [(1, take n1 item)])" by auto
  from mt_sound [OF a] obtain w new where w: "item = w @ s1" "n1 = length w"
    "w \<in> lang False (rplus False dot)" "cs1 = new" "captured False (rplus False dot) new"
    by (rule reachesE) auto
  from captured_keys [OF w(5)] have "new = []" by (simp add: groups_rplus_dot)
  with w b have st1: "st1 = (n1, s1, [(1, w)])" by simp
  from w(3) have ne: "w \<noteq> []" unfolding dot_def by (rule lang_rplus_nonempty)
  from mt_sound [OF 2] obtain new2 where c: "snd (snd st) = [(1, w)] @ new2"
    "captured False trackRest new2"
    unfolding st1 by (rule reachesE) auto
  from captured_keys [OF c(2)] have "1 \<notin> fst ` set new2" by (auto simp: groups_trackRest)
  then have "grp 1 ([(1, w)] @ new2) = grp 1 [(1, w)]" by (rule grp_other)
  moreover have "grp 1 [(1, w)] = w" by (simp add: grp_def)
  moreover have "cs = [(1, w)] @ new2" using c(1) cs by simp
  ultimately have "grp 1 cs = w" by simp
  with w(1) ne show ?thesis by blast
qed

lemma trackRegex_artist_trim:
  assumes "rmatch False trackRegex (trim x) = Some (i, cs)"
  shows "trim (grp 1 cs) \<noteq> []"
proof -
  from trackRegex_artist [OF assms] obtain w rest where w: "trim x = w @ rest" "w \<noteq> []"
    "grp 1 cs = w" by blast
  then have "trim x \<noteq> []" by simp
  from trim_hd [OF this] w(1,2) have "\<not> isSpace (hd w)" by simp
  moreover from w(2) have "hd w \<in> set w" by simp
  ultimately have "trim w \<noteq> []" by (rule trim_keeps [rotated])
  with w(3) show ?thesis by simp
qed

lemma rowTracks_props:
  "t \<in> set (rowTracks rows) \<Longrightarrow>
     title t \<noteq> [] \<and> artist t \<noteq> [] \<and> toLowerCase (title t) = title t \<and>
     toLowerCase (artist t) = artist t \<and> artist t \<noteq> ''artist'' \<and> title t \<noteq> ''song''"
proof (induction rows)
  case Nil
  then show ?case by simp
next
  case (Cons row rows)
  obtain cell1 cell2 where row: "row = (cell1, cell2)" by (cases row)
  from Cons show ?case
    unfolding row
    by (auto simp: Let_def toLowerCase_idem toLowerCase_Nil_iff split: if_splits)
qed

lemma itemTracks_props:
  "t \<in> set (itemTracks lis) \<Longrightarrow>
     artist t \<noteq> [] \<and> toLowerCase (title t) = title t \<and> toLowerCase (artist t) = artist t"
proof (induction lis)
  case Nil
  then show ?case by simp
next
  case (Cons li lis)
  show ?case
  proof (cases "rmatch False trackRegex (trim (stripTags li))")
    case None
    with Cons show ?thesis by (simp add: Let_def)
  next
    case (Some m)
    obtain i cs where m: "m = (i, cs)" by (cases m)
    from Some m have "trim (grp 1 cs) \<noteq> []" by (intro trackRegex_artist_trim) simp
    with Cons Some m show ?thesis
      by (auto simp: Let_def toLowerCase_idem toLowerCase_Nil_iff)
  qed
qed

text \<open>
  Claim C6 says that every track has a title and an artist that are not empty, and that a
  row is skipped when either cell is one of the two header labels. What holds (C6, as
  amended): a track of the table rows has a title and an artist that are not empty and in
  lower case; a track of the list items has an artist that is not empty, and a title and
  an artist in lower case; a row is skipped when its first cell, in lower case, is
  \<open>artist\<close>, when its second cell, in lower case, is \<open>song\<close>, and when a cell is empty,
  each cell taken without its markup and trimmed; and the list items are read only when
  the rows give no track.
\<close>

theorem tracks_checked:
  "(\<forall>t \<in> set (primaryTracks html).
      title t \<noteq> [] \<and> artist t \<noteq> [] \<and> toLowerCase (title t) = title t \<and>
      toLowerCase (artist t) = artist t \<and> artist t \<noteq> ''artist'' \<and> title t \<noteq> ''song'') \<and>
   (\<forall>t \<in> set (fallbackTracks html).
      artist t \<noteq> [] \<and> toLowerCase (title t) = title t \<and> toLowerCase (artist t) = artist t) \<and>
   (toLowerCase (trim (stripTags cell1)) = ''artist'' \<or>
    toLowerCase (trim (stripTags cell2)) = ''song'' \<or>
    trim (stripTags cell1) = [] \<or> trim (stripTags cell2) = [] \<longrightarrow>
      rowTracks ((cell1, cell2) # rows) = rowTracks rows) \<and>
   extractTracksFromHtml html =
     (if primaryTracks html = [] then fallbackTracks html else primaryTracks html)"
proof (intro conjI ballI impI)
  fix t assume "t \<in> set (primaryTracks html)"
  then have "t \<in> set (rowTracks (map (\<lambda>cs. (grp 1 cs, grp 2 cs))
      (execAll True rowRegex (normalizeHtml html))))"
    by (simp add: primaryTracks_def)
  from rowTracks_props [OF this]
  show "title t \<noteq> []" "artist t \<noteq> []" "toLowerCase (title t) = title t"
    "toLowerCase (artist t) = artist t" "artist t \<noteq> ''artist''" "title t \<noteq> ''song''"
    by simp_all
next
  fix t assume "t \<in> set (fallbackTracks html)"
  then have "t \<in> set (itemTracks (map (grp 1) (execAll True listItemRegex (normalizeHtml html))))"
    by (simp add: fallbackTracks_def)
  from itemTracks_props [OF this]
  show "artist t \<noteq> []" "toLowerCase (title t) = title t" "toLowerCase (artist t) = artist t"
    by simp_all
next
  assume "toLowerCase (trim (stripTags cell1)) = ''artist'' \<or>
    toLowerCase (trim (stripTags cell2)) = ''song'' \<or>
    trim (stripTags cell1) = [] \<or> trim (stripTags cell2) = []"
  then show "rowTracks ((cell1, cell2) # rows) = rowTracks rows"
    by (auto simp: Let_def)
next
  show "extractTracksFromHtml html =
     (if primaryTracks html = [] then fallbackTracks html else primaryTracks html)"
    by (simp add: extractTracksFromHtml_def Let_def)
qed

lemma tablePage_tracks:
  "primaryTracks tablePage = [\<lparr>title = ''glory box'', artist = ''portishead''\<rparr>]"
  by code_simp

lemma demoPage_tracks: "fallbackTracks demoPage = [\<lparr>title = ''b'', artist = ''a''\<rparr>]"
  by code_simp

lemma header_cells:
  "toLowerCase (trim (stripTags ''Artist'')) = ''artist''"
  by code_simp

text \<open>The table of the specification: the header row is skipped, the other row is the one
  track.\<close>

theorem tracks_checked_witness:
  "\<lparr>title = ''glory box'', artist = ''portishead''\<rparr> \<in> set (primaryTracks tablePage) \<and>
   \<lparr>title = ''b'', artist = ''a''\<rparr> \<in> set (fallbackTracks demoPage) \<and>
   toLowerCase (trim (stripTags ''Artist'')) = ''artist'' \<and>
   rowTracks [(''Artist'', ''Song'')] = [] \<and>
   extractTracksFromHtml tablePage = [\<lparr>title = ''glory box'', artist = ''portishead''\<rparr>]"
  using tracks_checked [where html = tablePage and ?cell1.0 = "''Artist''" and ?cell2.0 = "''Song''"
      and rows = "[]"]
    tracks_checked [where html = demoPage]
    tablePage_tracks demoPage_tracks header_cells
  by simp

text \<open>C6 as stated fails twice. The list item \<open>a - " "\<close> gives a track with an empty
  title: the pattern takes the space between the quotes as the title, and the title is
  trimmed after the match. And the row with the cells \<open>Song\<close> and \<open>x\<close> is not skipped,
  though its first cell is a header label: each label is looked for in its own column
  only.\<close>

theorem tracks_unchecked:
  "extractTracksFromHtml quotedItemPage = [\<lparr>title = [], artist = ''a''\<rparr>] \<and>
   extractTracksFromHtml songArtistPage = [\<lparr>title = ''x'', artist = ''song''\<rparr>]"
  by code_simp

section \<open>The normalizer: cleaning a text\<close>

lemma lang_lits_False: "w \<in> lang False (lits tok) \<Longrightarrow> w = tok"
  by (induction tok arbitrary: w) auto

lemma rsearch_lits_sublist:
  assumes "rsearch False (lits tok) n s = Some (i, si, st)"
  shows "sublist tok s"
proof -
  from rsearch_Some [OF assms] have si: "si = drop (i - n) s"
    and ne: "mt False (lits tok) (i, si, []) \<noteq> []" by auto
  from ne obtain st' where "st' \<in> set (mt False (lits tok) (i, si, []))"
    by (cases "mt False (lits tok) (i, si, [])") auto
  from mt_sound [OF this] obtain w where "si = w @ fst (snd st')" "w \<in> lang False (lits tok)"
    by (rule reachesE) auto
  then have "si = tok @ fst (snd st')" by (simp add: lang_lits_False)
  with si have "s = take (i - n) s @ tok @ fst (snd st')" by (metis append_take_drop_id)
  then show ?thesis unfolding sublist_def by blast
qed

lemma replaceAll_absent:
  assumes "\<not> sublist tok s"
  shows "replaceAll False (lits tok) rep s = s"
proof -
  from assms have "rsearch False (lits tok) 0 s = None"
    by (cases "rsearch False (lits tok) 0 s") (auto dest: rsearch_lits_sublist)
  then have "scan False (lits tok) 0 s = ([], s)" by (simp add: scan.simps)
  then show ?thesis by (simp add: replaceAll_def)
qed

lemma trim_Nil: "trim [] = []"
  by (simp add: trim_def)

lemma trim_idem: "trim (trim s) = trim s"
proof (cases "trim s = []")
  case True
  then show ?thesis by (simp add: trim_Nil)
next
  case False
  let ?u = "trim s"
  from trim_hd [OF False] False have a: "dropWhile isSpace ?u = ?u"
    by (cases ?u) auto
  have "rev ?u = dropWhile isSpace (rev (dropWhile isSpace s))" by (simp add: trim_def)
  then have "dropWhile isSpace (rev ?u) = rev ?u" by simp
  with a show ?thesis by (simp add: trim_def [of ?u])
qed

lemma clean_fix:
  assumes "\<not> sublist ''&nbsp;'' (clean s)"
  shows "clean (clean s) = clean s"
proof -
  have "clean (clean s) = trim (replaceAll False (lits ''&nbsp;'') '''' (clean s))"
    by (simp add: clean_def)
  also have "\<dots> = trim (clean s)" using replaceAll_absent [OF assms] by simp
  also have "\<dots> = clean s" by (simp add: clean_def trim_idem)
  finally show ?thesis .
qed

section \<open>The normalizer: what it changes\<close>

lemma framed_refl: "framed K d d"
  by (cases d) (auto simp: framed_def list_all2_same)

lemma framed_trans: "framed K a b \<Longrightarrow> framed K b c \<Longrightarrow> framed K a c"
proof (cases a)
  case (JObj kvs)
  assume ab: "framed K a b" and bc: "framed K b c"
  from ab JObj obtain kvs1 where b: "b = JObj kvs1"
    and 1: "list_all2 (\<lambda>p p'. fst p' = fst p \<and> (fst p \<notin> K \<longrightarrow> snd p' = snd p)) kvs kvs1"
    by (auto simp: framed_def)
  from bc b obtain kvs2 where c: "c = JObj kvs2"
    and 2: "list_all2 (\<lambda>p p'. fst p' = fst p \<and> (fst p \<notin> K \<longrightarrow> snd p' = snd p)) kvs1 kvs2"
    by (auto simp: framed_def)
  from 1 2 have "list_all2 (\<lambda>p p'. fst p' = fst p \<and> (fst p \<notin> K \<longrightarrow> snd p' = snd p)) kvs kvs2"
    by (rule list_all2_trans [rotated]) auto
  with JObj c show ?thesis by (simp add: framed_def)
qed (auto simp: framed_def)

lemma update_framed:
  "map_of kvs k = Some x \<Longrightarrow> k \<in> K \<Longrightarrow>
     list_all2 (\<lambda>p p'. fst p' = fst p \<and> (fst p \<notin> K \<longrightarrow> snd p' = snd p)) kvs
       (AList.update k v kvs)"
  by (induction kvs) (auto simp: list_all2_same split: if_splits)

lemma framed_update:
  assumes "k \<in> K" "map_of kvs k = Some x"
  shows "framed K (JObj kvs) (JObj (AList.update k v kvs))"
  using update_framed [OF assms(2,1), of v] by (simp add: framed_def)

lemma getProp_Some: "getProp d k = Inr (Some x) \<Longrightarrow> \<exists>kvs. d = JObj kvs \<and> map_of kvs k = Some x"
  by (cases d) auto

lemma map_of_update:
  "map_of (AList.update k v kvs) k' = (if k' = k then Some v else map_of kvs k')"
  by (simp add: update_conv')

lemma truthy_Some: "truthy v \<Longrightarrow> \<exists>x. v = Some x"
  by (cases v) auto

lemma cleanString_Inr: "cleanString v = Inr x \<Longrightarrow> \<exists>s. v = Some (JStr s) \<and> x = clean s"
  by (erule cleanString.elims) auto

lemma cleanTrack_rewritten: "cleanTrack t = Inr t' \<Longrightarrow> rewritten t t'"
  by (auto simp: cleanTrack_def rewritten_def split: sum.splits dest!: cleanString_Inr)

lemma cleanEach_rewritten: "cleanEach ts = Inr ts' \<Longrightarrow> list_all2 rewritten ts ts'"
  by (induction ts arbitrary: ts') (auto split: sum.splits dest: cleanTrack_rewritten)

lemma cleanTracks_Inr:
  "cleanTracks v = Inr r \<Longrightarrow>
     \<exists>ts ts'. v = Some (JArr ts) \<and> r = JArr ts' \<and> list_all2 rewritten ts ts'"
  by (erule cleanTracks.elims) (auto split: sum.splits dest: cleanEach_rewritten)

lemma stepOn_framed: "stepOn k d d' \<Longrightarrow> k \<in> K \<Longrightarrow> framed K d d'"
  by (auto simp: stepOn_def framed_refl framed_update)

lemma stepOn_other: "stepOn k d d' \<Longrightarrow> k' \<noteq> k \<Longrightarrow> getProp d' k' = getProp d k'"
  by (auto simp: stepOn_def map_of_update)

lemma cleanField_step:
  assumes "cleanField d k = Inr d'"
  shows "stepOn k d d' \<and> tracksCleaned d d' k"
proof -
  from assms obtain v where v: "getProp d k = Inr v"
    by (auto simp: cleanField_def split: sum.splits)
  show ?thesis
  proof (cases "truthy v")
    case False
    with assms v show ?thesis by (simp add: cleanField_def stepOn_def tracksCleaned_def)
  next
    case True
    with assms v obtain r where r: "cleanTracks v = Inr r" "d' = assign d k r"
      by (auto simp: cleanField_def split: sum.splits)
    from cleanTracks_Inr [OF r(1)] obtain ts ts' where t: "v = Some (JArr ts)" "r = JArr ts'"
      "list_all2 rewritten ts ts'" by blast
    from v t(1) obtain kvs where k: "d = JObj kvs" "map_of kvs k = Some (JArr ts)"
      by (auto dest: getProp_Some)
    with r(2) have d': "d' = JObj (AList.update k r kvs)" by simp
    with k have "stepOn k d d'" unfolding stepOn_def by blast
    moreover from d' v t True have "tracksCleaned d d' k"
      unfolding tracksCleaned_def by (auto simp: map_of_update)
    ultimately show ?thesis by simp
  qed
qed

lemma cleanTitle_step:
  assumes "cleanTitle d = Inr d'"
  shows "stepOn ''title'' d d' \<and> titleCleaned d d'"
proof -
  from assms obtain v where v: "getProp d ''title'' = Inr v"
    by (auto simp: cleanTitle_def split: sum.splits)
  show ?thesis
  proof (cases "truthy v")
    case False
    with assms v show ?thesis by (simp add: cleanTitle_def stepOn_def titleCleaned_def)
  next
    case True
    with assms v obtain x where r: "cleanString v = Inr x" "d' = assign d ''title'' (JStr x)"
      by (auto simp: cleanTitle_def split: sum.splits)
    from cleanString_Inr [OF r(1)] obtain s where s: "v = Some (JStr s)" "x = clean s" by blast
    from v s(1) obtain kvs where k: "d = JObj kvs" "map_of kvs ''title'' = Some (JStr s)"
      by (auto dest: getProp_Some)
    with r(2) have d': "d' = JObj (AList.update ''title'' (JStr x) kvs)" by simp
    with k have "stepOn ''title'' d d'" unfolding stepOn_def by blast
    moreover from d' v s True have "titleCleaned d d'"
      unfolding titleCleaned_def by (auto simp: map_of_update)
    ultimately show ?thesis by simp
  qed
qed

lemma tracksCleaned_later:
  "tracksCleaned d d1 k \<Longrightarrow> stepOn k' d1 d2 \<Longrightarrow> k' \<noteq> k \<Longrightarrow> tracksCleaned d d2 k"
  unfolding tracksCleaned_def by (auto simp: stepOn_other)

lemma tracksCleaned_earlier:
  "stepOn k' d d1 \<Longrightarrow> k' \<noteq> k \<Longrightarrow> tracksCleaned d1 d2 k \<Longrightarrow> tracksCleaned d d2 k"
  unfolding tracksCleaned_def by (auto simp: stepOn_other)

lemma titleCleaned_earlier:
  "stepOn k' d d1 \<Longrightarrow> k' \<noteq> ''title'' \<Longrightarrow> titleCleaned d1 d2 \<Longrightarrow> titleCleaned d d2"
  unfolding titleCleaned_def by (auto simp: stepOn_other)

lemma normalize_steps:
  assumes "normalizeFile data = Inr data'"
  shows "framed touched data data' \<and> tracksCleaned data data' ''tracks'' \<and>
     tracksCleaned data data' ''sideA'' \<and> tracksCleaned data data' ''sideB'' \<and>
     titleCleaned data data'"
proof -
  from assms obtain d1 d2 d3 where s: "cleanField data ''tracks'' = Inr d1"
    "cleanField d1 ''sideA'' = Inr d2" "cleanField d2 ''sideB'' = Inr d3"
    "cleanTitle d3 = Inr data'"
    by (auto simp: normalizeFile_def split: sum.splits)
  note 1 = cleanField_step [OF s(1)] and 2 = cleanField_step [OF s(2)]
    and 3 = cleanField_step [OF s(3)] and 4 = cleanTitle_step [OF s(4)]
  have tk: "''tracks'' \<in> touched" "''sideA'' \<in> touched" "''sideB'' \<in> touched"
    "''title'' \<in> touched" by (simp_all add: touched_def)
  have f: "framed touched data data'"
    by (rule framed_trans [OF framed_trans [OF framed_trans]])
       (rule stepOn_framed [OF 1 [THEN conjunct1] tk(1)]
             stepOn_framed [OF 2 [THEN conjunct1] tk(2)]
             stepOn_framed [OF 3 [THEN conjunct1] tk(3)]
             stepOn_framed [OF 4 [THEN conjunct1] tk(4)])+
  note s1 = 1 [THEN conjunct1] and s2 = 2 [THEN conjunct1] and s3 = 3 [THEN conjunct1]
    and s4 = 4 [THEN conjunct1]
  have "tracksCleaned data d2 ''tracks''"
    by (rule tracksCleaned_later [OF 1 [THEN conjunct2] s2]) simp
  then have "tracksCleaned data d3 ''tracks''"
    by (rule tracksCleaned_later [OF _ s3]) simp
  then have a: "tracksCleaned data data' ''tracks''"
    by (rule tracksCleaned_later [OF _ s4]) simp
  have "tracksCleaned data d2 ''sideA''"
    by (rule tracksCleaned_earlier [OF s1 _ 2 [THEN conjunct2]]) simp
  then have "tracksCleaned data d3 ''sideA''"
    by (rule tracksCleaned_later [OF _ s3]) simp
  then have b: "tracksCleaned data data' ''sideA''"
    by (rule tracksCleaned_later [OF _ s4]) simp
  have "tracksCleaned d1 d3 ''sideB''"
    by (rule tracksCleaned_earlier [OF s2 _ 3 [THEN conjunct2]]) simp
  then have "tracksCleaned data d3 ''sideB''"
    by (rule tracksCleaned_earlier [OF s1, rotated]) simp
  then have c: "tracksCleaned data data' ''sideB''"
    by (rule tracksCleaned_later [OF _ s4]) simp
  have "titleCleaned d2 data'"
    by (rule titleCleaned_earlier [OF s3 _ 4 [THEN conjunct2]]) simp
  then have "titleCleaned d1 data'"
    by (rule titleCleaned_earlier [OF s2, rotated]) simp
  then have d: "titleCleaned data data'"
    by (rule titleCleaned_earlier [OF s1, rotated]) simp
  from f a b c d show ?thesis by simp
qed

lemma yearFile_normalized: "normalizeFile yearFile = Inr yearOut"
  by code_simp

text \<open>
  What \<open>JSON.parse\<close> makes of an object: the value of a key is the value of the last member
  of the text that has the key; and an object whose keys are written once, and are no
  array indices, keeps its members in the order of the text.
\<close>

lemma insertKey_plain: "arrayIndex k = None \<Longrightarrow> insertKey k v ps = ps @ [(k, v)]"
  by (induction ps) auto

lemma map_of_insertKey:
  "k \<notin> fst ` set ps \<Longrightarrow> map_of (insertKey k v ps) k' = (if k' = k then Some v else map_of ps k')"
  by (induction ps) (auto split: option.splits)

lemma map_of_createDataProperty:
  "map_of (createDataProperty ps p) k = (if k = fst p then Some (snd p) else map_of ps k)"
  by (auto simp: createDataProperty_def map_of_insertKey update_conv')

lemma map_of_properties:
  "map_of (foldl createDataProperty acc kvs) k =
     (case map_of (rev kvs) k of None \<Rightarrow> map_of acc k | Some v \<Rightarrow> Some v)"
proof (induction kvs arbitrary: acc)
  case Nil
  show ?case by simp
next
  case (Cons p kvs)
  show ?case
    by (cases p) (simp add: Cons.IH map_of_createDataProperty map_add_def split: option.splits)
qed

lemma map_of_map_prod:
  "map_of (map (map_prod id f) ps) k = map_option f (map_of ps k)"
  by (induction ps) auto

lemma parse_field:
  "fieldOf (parse rd (JObj ms)) k = map_option (parse rd) (map_of (rev ms) k)"
  by (simp add: map_of_properties rev_map map_of_map_prod split: option.splits)

lemma stringify_field:
  "fieldOf (stringify pr (JObj ps)) k = map_option (stringify pr) (map_of ps k)"
  by (simp add: map_of_map_prod)

lemma roundTrip_field:
  "fieldOf (roundTrip rd pr (JObj ms)) k = map_option (roundTrip rd pr) (map_of (rev ms) k)"
proof -
  obtain ps where ps: "parse rd (JObj ms) = JObj ps" by simp
  from parse_field [of rd ms k] ps have "map_of ps k = map_option (parse rd) (map_of (rev ms) k)"
    by simp
  moreover have "roundTrip rd pr = (\<lambda>v. stringify pr (parse rd v))"
    by (simp add: fun_eq_iff roundTrip_def)
  ultimately show ?thesis using stringify_field [of pr ps k] ps
    by (simp add: option.map_comp comp_def del: parse.simps stringify.simps)
qed

lemma properties_plain:
  "distinct (map fst (acc @ kvs)) \<Longrightarrow> list_all (\<lambda>k. arrayIndex k = None) (map fst kvs) \<Longrightarrow>
     foldl createDataProperty acc kvs = acc @ kvs"
proof (induction kvs arbitrary: acc)
  case Nil
  show ?case by simp
next
  case (Cons p kvs)
  from Cons.prems have "createDataProperty acc p = acc @ [p]"
    by (cases p) (auto simp: createDataProperty_def insertKey_plain)
  moreover from Cons.prems have "distinct (map fst ((acc @ [p]) @ kvs))" by simp
  moreover from Cons.prems have "list_all (\<lambda>k. arrayIndex k = None) (map fst kvs)" by simp
  ultimately show ?case using Cons.IH [of "acc @ [p]"] by simp
qed

lemma parse_plain:
  "distinct (map fst ms) \<Longrightarrow> list_all (\<lambda>k. arrayIndex k = None) (map fst ms) \<Longrightarrow>
     parse rd (JObj ms) = JObj (map (map_prod id (parse rd)) ms)"
  using properties_plain [of "[]" "map (map_prod id (parse rd)) ms"]
  by (simp add: comp_def)

text \<open>The round trip gives a plain text back.\<close>

lemma roundTrip_plain: "plain rd pr v \<Longrightarrow> roundTrip rd pr v = v"
proof (induction v)
  case (JArr xs)
  then show ?case by (simp add: roundTrip_def list_all_iff map_idI)
next
  case (JObj ms)
  from JObj.prems have d: "distinct (map fst ms)" "list_all (\<lambda>k. arrayIndex k = None) (map fst ms)"
    and s: "\<forall>p \<in> set ms. plain rd pr (snd p)"
    by (auto simp: list_all_iff pred_prod_beta)
  have "map_prod id (stringify pr) (map_prod id (parse rd) p) = p" if "p \<in> set ms" for p
  proof -
    from s that have "plain rd pr (snd p)" by simp
    with JObj.IH [of p "snd p"] that have "stringify pr (parse rd (snd p)) = snd p"
      by (cases p) (simp add: roundTrip_def)
    then show ?thesis by (cases p) simp
  qed
  then have "map (map_prod id (stringify pr)) (map (map_prod id (parse rd)) ms) = ms"
    by (simp add: map_idI del: map_prod_simp)
  with parse_plain [OF d, of rd] show ?case by (simp add: roundTrip_def del: parse.simps)
qed (simp_all add: roundTrip_def)

text \<open>Printing keeps the frame and the members outside it.\<close>

lemma framed_stringify:
  assumes "framed K d d'"
  shows "framed K (stringify pr d) (stringify pr d')"
proof (cases d)
  case (JObj kvs)
  with assms obtain kvs' where d': "d' = JObj kvs'"
    and l: "list_all2 (\<lambda>p p'. fst p' = fst p \<and> (fst p \<notin> K \<longrightarrow> snd p' = snd p)) kvs kvs'"
    by (auto simp: framed_def)
  from l have "list_all2 (\<lambda>p p'. fst p' = fst p \<and> (fst p \<notin> K \<longrightarrow> snd p' = snd p))
      (map (map_prod id (stringify pr)) kvs) (map (map_prod id (stringify pr)) kvs')"
    by (induction rule: list_all2_induct) auto
  with JObj d' show ?thesis by (simp add: framed_def)
next
  case (JNum x)
  with assms show ?thesis by (cases "pr x") (simp_all add: framed_def)
qed (use assms in \<open>auto simp: framed_def\<close>)

lemma framed_fieldOf:
  assumes "framed K d d'" "k \<notin> K"
  shows "fieldOf d' k = fieldOf d k"
proof (cases d)
  case (JObj kvs)
  with assms(1) obtain kvs' where d': "d' = JObj kvs'"
    and l: "list_all2 (\<lambda>p p'. fst p' = fst p \<and> (fst p \<notin> K \<longrightarrow> snd p' = snd p)) kvs kvs'"
    by (auto simp: framed_def)
  from l assms(2) have "map_of kvs' k = map_of kvs k"
    by (induction rule: list_all2_induct) (auto simp: prod_eq_iff)
  with JObj d' show ?thesis by simp
qed (use assms in \<open>auto simp: framed_def\<close>)


text \<open>Every record that the importer writes is plain: its keys are the literal keys of
  \<open>jsonData\<close>, and its values are texts and lists of objects of two texts.\<close>

lemma arrayIndex_letter: "\<not> isDigit c \<Longrightarrow> arrayIndex (c # s) = None"
  by (simp add: arrayIndex_def)

lemma trackJson_plain: "plain rd pr (trackJson t)"
  by (simp add: trackJson_def arrayIndex_letter isDigit_def charCode_def)

lemma tracks_plain: "list_all (plain rd pr) (map trackJson ts)"
  by (induction ts) (simp_all add: trackJson_plain)

lemma jsonData_plain: "plain rd pr (jsonData mixData)"
  by (cases "data_sideA mixData"; cases "data_sideB mixData")
    (auto simp: jsonData_def arrayIndex_letter isDigit_def charCode_def tracks_plain)

text \<open>The two example files, for every reading and printing of the numbers.\<close>

lemma clean_examples:
  "clean ''x&nbsp;'' = ''x''" "clean ''a'' = ''a''" "clean ''b '' = ''b''" "clean ''x'' = ''x''"
  by code_simp+

lemma yearFile_reformatted: "reformatFile rd pr (Some yearFile) = Inr yearOut"
proof -
  have "parse rd yearFile =
      JObj [(''title'', JStr ''x&nbsp;''), (''date'', JStr ''1999-07-04''),
            (''tracks'', JArr [JObj [(''artist'', JStr ''b ''), (''title'', JStr ''a''),
                                     (''year'', JNum (rd 1999))]]),
            (''published'', JBool True)]"
    by (simp add: yearFile_def yearTrack_def createDataProperty_def arrayIndex_letter
        isDigit_def charCode_def)
  moreover have "normalizeFile (JObj [(''title'', JStr ''x&nbsp;''), (''date'', JStr ''1999-07-04''),
            (''tracks'', JArr [JObj [(''artist'', JStr ''b ''), (''title'', JStr ''a''),
                                     (''year'', JNum (rd 1999))]]),
            (''published'', JBool True)]) =
      Inr (JObj [(''title'', JStr ''x''), (''date'', JStr ''1999-07-04''),
           (''tracks'', JArr [JObj [(''title'', JStr ''a''), (''artist'', JStr ''b'')]]),
           (''published'', JBool True)])"
    by (simp add: normalizeFile_def cleanField_def cleanTitle_def cleanTrack_def clean_examples)
  ultimately show ?thesis by (simp add: reformatFile_def yearOut_def)
qed

lemma arrayIndex_one: "arrayIndex ''1'' = Some 1"
  by code_simp

lemma chartFile_reformatted: "reformatFile rd pr (Some chartFile) = Inr chartOut"
proof -
  have p: "parse rd chartFile =
      JObj [(''title'', JStr ''x''), (''chart'', JObj [(''1'', JStr ''v''), (''b'', JStr ''u'')])]"
    by (simp add: chartFile_def createDataProperty_def arrayIndex_letter arrayIndex_one
        isDigit_def charCode_def)
  have "normalizeFile (parse rd chartFile) = Inr (parse rd chartFile)"
    unfolding p by (simp add: normalizeFile_def cleanField_def cleanTitle_def clean_examples)
  then show ?thesis by (simp add: reformatFile_def chartOut_def p)
qed

text \<open>A number outside the title and the tracks is written as the double that is read for
  it is printed: a literal that is no double, such as \<open>9007199254740993\<close>, is written as
  the double nearest to it, and a literal beyond the doubles, such as \<open>1e400\<close>, is written
  as \<open>null\<close>.\<close>

lemma reformatFile_number:
  "reformatFile rd pr (Some (JObj [(''n'', JNum l)])) =
     Inr (JObj [(''n'', case pr (rd l) of None \<Rightarrow> JNull | Some l' \<Rightarrow> JNum l')])"
  by (simp add: reformatFile_def normalizeFile_def cleanField_def cleanTitle_def
      createDataProperty_def)

text \<open>
  Claim C9 says that the normalizer changes the title and the title and artist of the
  track entries, and that every other field has, in the rewritten file, the value it had.
  What holds (C9, as amended): the text that the normalizer writes for a file is the print
  of the parsed value, changed in \<open>title\<close>, \<open>tracks\<close>, \<open>sideA\<close> and \<open>sideB\<close> only. A
  title that is a non-empty text is cleaned; a track list is replaced by the list of its
  entries, each rewritten as an object of exactly the cleaned title and the cleaned
  artist, so that any other property of a track entry is dropped. Every other member of
  the record is written as the round trip through \<open>JSON.parse\<close> and \<open>JSON.stringify\<close>
  leaves its value in the file (of a key written twice, the last value): this is the
  value itself when it is plain; otherwise a number is written as the double that was
  read for it is printed, or as \<open>null\<close>, and the keys of an object are written once, in
  the order of the enumeration. A file whose text is not an object is written as its
  round trip; and in a file whose text is plain, as is every record that the importer
  has written, the members of the record stay in their order, each with its value but
  for the four.
\<close>

theorem normalize_frame:
  assumes "reformatFile rd pr (Some content) = Inr out"
  shows "(\<forall>k. k \<notin> touched \<longrightarrow> fieldOf out k = fieldOf (roundTrip rd pr content) k) \<and>
     (\<forall>ms k. content = JObj ms \<and> k \<notin> touched \<longrightarrow>
        fieldOf out k = map_option (roundTrip rd pr) (map_of (rev ms) k)) \<and>
     (\<forall>ms k v. content = JObj ms \<and> k \<notin> touched \<and> map_of (rev ms) k = Some v \<and> plain rd pr v \<longrightarrow>
        fieldOf out k = Some v) \<and>
     ((\<forall>ms. content \<noteq> JObj ms) \<longrightarrow> out = roundTrip rd pr content) \<and>
     framed touched (roundTrip rd pr content) out \<and>
     (plain rd pr content \<longrightarrow> framed touched content out) \<and>
     (\<exists>data'. normalizeFile (parse rd content) = Inr data' \<and> out = stringify pr data' \<and>
        framed touched (parse rd content) data' \<and>
        tracksCleaned (parse rd content) data' ''tracks'' \<and>
        tracksCleaned (parse rd content) data' ''sideA'' \<and>
        tracksCleaned (parse rd content) data' ''sideB'' \<and>
        titleCleaned (parse rd content) data')"
proof -
  from assms obtain data' where n: "normalizeFile (parse rd content) = Inr data'"
    and out: "out = stringify pr data'"
    by (auto simp: reformatFile_def split: sum.splits)
  note s = normalize_steps [OF n]
  from s have f: "framed touched (roundTrip rd pr content) out"
    unfolding out roundTrip_def by (simp add: framed_stringify)
  have a: "fieldOf out k = fieldOf (roundTrip rd pr content) k" if "k \<notin> touched" for k
    using f that by (rule framed_fieldOf)
  have b: "fieldOf out k = map_option (roundTrip rd pr) (map_of (rev ms) k)"
    if "content = JObj ms" "k \<notin> touched" for ms k
    using a [OF that(2)] that(1) by (simp only: roundTrip_field)
  have c: "fieldOf out k = Some v"
    if "content = JObj ms" "k \<notin> touched" "map_of (rev ms) k = Some v" "plain rd pr v" for ms k v
    using b [OF that(1,2)] that(3) roundTrip_plain [OF that(4)] by simp
  have d: "out = roundTrip rd pr content" if "\<forall>ms. content \<noteq> JObj ms"
  proof -
    from that have "\<forall>kvs. roundTrip rd pr content \<noteq> JObj kvs"
      by (cases content) (auto simp: roundTrip_def split: option.splits)
    with f show ?thesis by (cases "roundTrip rd pr content") (auto simp: framed_def)
  qed
  have e: "framed touched content out" if "plain rd pr content"
    using f roundTrip_plain [OF that] by simp
  from f a b c d e n out s show ?thesis by blast
qed

theorem normalize_frame_witness:
  "reformatFile (\<lambda>l. l) Some (Some yearFile) = Inr yearOut \<and>
   fieldOf yearOut ''date'' = Some (JStr ''1999-07-04'') \<and>
   fieldOf yearOut ''published'' = Some (JBool True) \<and>
   fieldOf yearOut ''notes'' = fieldOf (roundTrip (\<lambda>l. l) Some yearFile) ''notes'' \<and>
   reformatFile (\<lambda>l. l) Some (Some (JStr ''x&nbsp;'' :: int json)) = Inr (JStr ''x&nbsp;'') \<and>
   JStr ''x&nbsp;'' = roundTrip (\<lambda>l. l) Some (JStr ''x&nbsp;'' :: int json) \<and>
   framed touched (roundTrip (\<lambda>l. l) Some yearFile) yearOut \<and>
   plain (\<lambda>l. l) Some yearFile \<and> framed touched yearFile yearOut"
proof -
  let ?ms = "[(''title'', JStr ''x&nbsp;''), (''date'', JStr ''1999-07-04''),
           (''tracks'', JArr [yearTrack]), (''published'', JBool True)]"
  have r: "reformatFile (\<lambda>l. l) Some (Some yearFile) = Inr yearOut" by (rule yearFile_reformatted)
  have q: "reformatFile (\<lambda>l. l) Some (Some (JStr ''x&nbsp;'' :: int json)) = Inr (JStr ''x&nbsp;'')"
    by (simp add: reformatFile_def normalizeFile_def cleanField_def cleanTitle_def)
  note inst = normalize_frame [OF r]
  have 1: "fieldOf yearOut ''date'' = Some (JStr ''1999-07-04'')"
    by (rule inst [THEN conjunct2, THEN conjunct2, THEN conjunct1, rule_format, of ?ms])
      (simp add: yearFile_def touched_def)
  have 2: "fieldOf yearOut ''published'' = Some (JBool True)"
    by (rule inst [THEN conjunct2, THEN conjunct2, THEN conjunct1, rule_format, of ?ms])
      (simp add: yearFile_def touched_def)
  have 3: "fieldOf yearOut ''notes'' = fieldOf (roundTrip (\<lambda>l. l) Some yearFile) ''notes''"
    by (rule inst [THEN conjunct1, rule_format]) (simp add: touched_def)
  have 4: "JStr ''x&nbsp;'' = roundTrip (\<lambda>l. l) Some (JStr ''x&nbsp;'' :: int json)"
    by (rule normalize_frame [OF q, THEN conjunct2, THEN conjunct2, THEN conjunct2, THEN conjunct1,
          rule_format]) simp
  from inst have 5: "framed touched (roundTrip (\<lambda>l. l) Some yearFile) yearOut" by simp
  have 6: "plain (\<lambda>l. l) Some yearFile"
    by (simp add: yearFile_def yearTrack_def arrayIndex_letter isDigit_def charCode_def)
  from inst 6 have 7: "framed touched yearFile yearOut" by simp
  from r q 1 2 3 4 5 6 7 show ?thesis by simp
qed

text \<open>C9 as stated fails, whatever the reading and the printing of the numbers. The track
  of the first file has a year, and its artist comes before its title; the track that is
  written back has the title and the artist only. The second file has a member, other
  than its title and its tracks, whose value is written back with its keys in another
  order.\<close>

theorem normalize_rewrites_tracks:
  "(\<forall>rd pr. reformatFile rd pr (Some yearFile) = Inr yearOut) \<and>
   fieldOf yearFile ''tracks'' =
     Some (JArr [JObj [(''artist'', JStr ''b ''), (''title'', JStr ''a''),
                      (''year'', JNum 1999)]]) \<and>
   fieldOf yearOut ''tracks'' =
     Some (JArr [JObj [(''title'', JStr ''a''), (''artist'', JStr ''b'')]]) \<and>
   (\<forall>rd pr. reformatFile rd pr (Some chartFile) = Inr chartOut) \<and>
   fieldOf chartFile ''chart'' = Some (JObj [(''b'', JStr ''u''), (''1'', JStr ''v'')]) \<and>
   fieldOf chartOut ''chart'' = Some (JObj [(''1'', JStr ''v''), (''b'', JStr ''u'')])"
  by (simp add: yearFile_reformatted chartFile_reformatted)
    (simp add: yearFile_def yearOut_def yearTrack_def chartFile_def chartOut_def)

section \<open>The normalizer: a second pass\<close>

lemma clean_tokenFree: "tokenFree (clean s) \<Longrightarrow> clean (clean s) = clean s"
  by (simp add: tokenFree_def clean_fix)

lemma rewritten_fixed:
  assumes "rewritten t t'" "list_all tokenFree (entryTexts t')"
  shows "cleanTrack t' = Inr t'"
proof -
  from assms(1) obtain a b where t': "t' = JObj [(''title'', JStr (clean a)), (''artist'', JStr (clean b))]"
    by (auto simp: rewritten_def)
  with assms(2) have "tokenFree (clean a)" "tokenFree (clean b)"
    by (simp_all add: entryTexts_def strs_def)
  then show ?thesis unfolding t' by (simp add: cleanTrack_def clean_tokenFree)
qed

lemma cleanEach_fixed:
  "list_all2 rewritten ts ts' \<Longrightarrow> list_all tokenFree (concat (map entryTexts ts')) \<Longrightarrow>
     cleanEach ts' = Inr ts'"
  by (induction rule: list_all2_induct) (simp_all add: rewritten_fixed)

lemma cleanField_fixed:
  assumes "tracksCleaned d d1 k" "list_all tokenFree (arrTexts (getProp d1 k))"
  shows "cleanField d1 k = Inr d1"
proof -
  from assms(1) obtain v where v: "getProp d k = Inr v"
    and c: "if truthy v
         then \<exists>ts ts'. v = Some (JArr ts) \<and> getProp d1 k = Inr (Some (JArr ts')) \<and>
                list_all2 rewritten ts ts'
         else getProp d1 k = Inr v"
    unfolding tracksCleaned_def by blast
  show ?thesis
  proof (cases "truthy v")
    case False
    with c show ?thesis by (simp add: cleanField_def)
  next
    case True
    with c obtain ts ts' where g: "getProp d1 k = Inr (Some (JArr ts'))"
      and r: "list_all2 rewritten ts ts'" by auto
    from g assms(2) have "list_all tokenFree (concat (map entryTexts ts'))"
      by (simp add: arrTexts_def)
    from cleanEach_fixed [OF r this] have e: "cleanEach ts' = Inr ts'" .
    from getProp_Some [OF g] obtain kvs where k: "d1 = JObj kvs" "map_of kvs k = Some (JArr ts')"
      by blast
    from k(2) have "AList.update k (JArr ts') kvs = kvs" by (rule update_triv)
    with g e k show ?thesis by (simp add: cleanField_def)
  qed
qed

lemma cleanTitle_fixed:
  assumes "titleCleaned d d1" "list_all tokenFree (strs (getProp d1 ''title''))"
  shows "cleanTitle d1 = Inr d1"
proof -
  from assms(1) obtain v where v: "getProp d ''title'' = Inr v"
    and c: "if truthy v
         then \<exists>s. v = Some (JStr s) \<and> getProp d1 ''title'' = Inr (Some (JStr (clean s)))
         else getProp d1 ''title'' = Inr v"
    unfolding titleCleaned_def by blast
  show ?thesis
  proof (cases "truthy v")
    case False
    with c show ?thesis by (simp add: cleanTitle_def)
  next
    case True
    with c obtain s where g: "getProp d1 ''title'' = Inr (Some (JStr (clean s)))" by auto
    with assms(2) have t: "clean (clean s) = clean s" by (simp add: strs_def clean_tokenFree)
    from getProp_Some [OF g] obtain kvs where k: "d1 = JObj kvs"
      "map_of kvs ''title'' = Some (JStr (clean s))" by blast
    from k(2) have "AList.update ''title'' (JStr (clean s)) kvs = kvs" by (rule update_triv)
    with g t k show ?thesis by (simp add: cleanTitle_def)
  qed
qed

text \<open>
  Claim C3 says that a second pass of the normalizer changes nothing. This holds for every
  record in which the first pass leaves no token \<open>&nbsp;\<close> in the texts it has cleaned
  (C3, as amended): the second pass then writes back the value the first pass wrote.
\<close>

theorem normalize_twice:
  assumes "normalizeFile data = Inr d1" and "list_all tokenFree (texts d1)"
  shows "normalizeFile d1 = Inr d1"
proof -
  from normalize_steps [OF assms(1)] have s: "tracksCleaned data d1 ''tracks''"
    "tracksCleaned data d1 ''sideA''" "tracksCleaned data d1 ''sideB''" "titleCleaned data d1"
    by simp_all
  from assms(2) have t: "list_all tokenFree (strs (getProp d1 ''title''))"
    "list_all tokenFree (arrTexts (getProp d1 ''tracks''))"
    "list_all tokenFree (arrTexts (getProp d1 ''sideA''))"
    "list_all tokenFree (arrTexts (getProp d1 ''sideB''))"
    by (simp_all add: texts_def)
  from cleanField_fixed [OF s(1) t(2)] cleanField_fixed [OF s(2) t(3)]
    cleanField_fixed [OF s(3) t(4)] cleanTitle_fixed [OF s(4) t(1)]
  show ?thesis by (simp add: normalizeFile_def)
qed

lemma yearOut_texts: "list_all tokenFree (texts yearOut)"
  by code_simp

theorem normalize_twice_witness:
  "normalizeFile yearFile = Inr yearOut \<and> list_all tokenFree (texts yearOut) \<and>
   normalizeFile yearOut = Inr yearOut"
  using normalize_twice [OF yearFile_normalized yearOut_texts] yearFile_normalized yearOut_texts
  by simp

text \<open>C3 as stated fails: removing the token from \<open>&nb&nbsp;sp;x\<close> leaves \<open>&nbsp;x\<close>, which
  holds the token again, and the second pass removes it.\<close>

theorem normalize_not_idempotent:
  "normalizeFile (JObj [(''title'', JStr ''&nb&nbsp;sp;x'')] :: int json) =
     Inr (JObj [(''title'', JStr ''&nbsp;x'')]) \<and>
   normalizeFile (JObj [(''title'', JStr ''&nbsp;x'')] :: int json) =
     Inr (JObj [(''title'', JStr ''x'')]) \<and>
   (JObj [(''title'', JStr ''&nbsp;x'')] :: int json) \<noteq> JObj [(''title'', JStr ''x'')]"
  by code_simp

end
